theory Spec2Isabelle
  imports Main "HOL-Library.Char_ord" "HOL-Library.List_Lexorder" "HOL-Library.Product_Lexorder"
    "HOL-Library.Multiset"
begin

section \<open>The JSON-backed task store of \<^verbatim>\<open>src/backend/storage.py\<close>\<close>

text \<open>
  The class \<^verbatim>\<open>LocalTaskStore\<close> keeps one JSON file \<^verbatim>\<open>{"tasks": [...]}\<close>; every
  public method loads the whole file, works on the list of task dictionaries and, when it
  mutates, writes the whole file back. The embedding follows the Python line by line:
  a task is a dictionary from keys to JSON scalars, the file is the list of tasks, an
  exception is a value of type \<open>error\<close>, and each method takes the state before the call and
  returns its outcome together with the state after it.
\<close>

subsection \<open>Values and dictionaries\<close>

text \<open>
  The values of a task dictionary are JSON scalars: \<^verbatim>\<open>None\<close>, booleans, integers and strings
  (strings are byte strings, ordered as Python orders \<^verbatim>\<open>str\<close>: lexicographically by code).
  Floats and nested lists or dictionaries are outside the model.
\<close>

datatype jval = JNull | JBool bool | JNum int | JStr string

type_synonym task = "string \<rightharpoonup> jval"

datatype error = ValueError | KeyError | TypeError

text \<open>Python truthiness, as used by \<^verbatim>\<open>x or y\<close>, \<^verbatim>\<open>if t.get("id")\<close> and \<^verbatim>\<open>if not due\<close>.\<close>

fun truthy :: "jval \<Rightarrow> bool" where
  "truthy JNull = False"
| "truthy (JBool b) = b"
| "truthy (JNum n) = (n \<noteq> 0)"
| "truthy (JStr s) = (s \<noteq> [])"

definition py_or :: "jval \<Rightarrow> jval \<Rightarrow> jval" where
  "py_or a b = (if truthy a then a else b)"

text \<open>Python \<^verbatim>\<open>==\<close> on scalars (and equality of dictionary keys): \<^verbatim>\<open>True == 1\<close>, \<^verbatim>\<open>False == 0\<close>.\<close>

fun py_eq :: "jval \<Rightarrow> jval \<Rightarrow> bool" where
  "py_eq (JBool a) (JNum n) = (n = (if a then 1 else 0))"
| "py_eq (JNum n) (JBool a) = (n = (if a then 1 else 0))"
| "py_eq a b = (a = b)"

text \<open>\<^verbatim>\<open>d.get(k)\<close> and \<^verbatim>\<open>d.get(k, default)\<close>.\<close>

definition get_default :: "task \<Rightarrow> string \<Rightarrow> jval \<Rightarrow> jval" where
  "get_default d k dflt = (case d k of None \<Rightarrow> dflt | Some v \<Rightarrow> v)"

definition get :: "task \<Rightarrow> string \<Rightarrow> jval" where
  "get d k = get_default d k JNull"

text \<open>\<^verbatim>\<open>d.setdefault(k, v)\<close>: stores \<open>v\<close> only when the key is absent (a key that is present
  with the value \<^verbatim>\<open>None\<close> is left alone).\<close>

definition setdefault :: "task \<Rightarrow> string \<Rightarrow> jval \<Rightarrow> task" where
  "setdefault d k v = (case d k of None \<Rightarrow> d(k \<mapsto> v) | Some _ \<Rightarrow> d)"

subsection \<open>The environment and the state\<close>

text \<open>
  \<^verbatim>\<open>_now_iso\<close> reads the clock and \<^verbatim>\<open>hash\<close> is Python's built-in hash of the tuple
  \<^verbatim>\<open>(canonical_text, now)\<close>; both are parameters. \<open>now_iso e k\<close> is the string returned by the
  \<open>k\<close>-th reading of the clock, and the state counts the readings made so far.
\<close>

record env =
  now_iso :: "nat \<Rightarrow> string"
  hash :: "jval \<Rightarrow> string \<Rightarrow> int"

record state =
  tasks_file :: "task list"
  clock :: nat

text \<open>Decimal digits of a natural number, as \<^verbatim>\<open>f"{n}"\<close> prints them.\<close>

fun str_nat :: "nat \<Rightarrow> string" where
  "str_nat n = (if n < 10 then [char_of (48 + n)]
                else str_nat (n div 10) @ [char_of (48 + n mod 10)])"

declare str_nat.simps [simp del]

subsection \<open>\<^verbatim>\<open>_normalize_task_record\<close>\<close>

text \<open>
  Returns the normalized record and the clock count after the call. The clock is read once
  for the fabricated id (the argument of \<^verbatim>\<open>setdefault\<close> is evaluated even when the key is
  present), once for \<^verbatim>\<open>created_at\<close> when the payload's value is falsy, and once for
  \<^verbatim>\<open>updated_at\<close>.
\<close>

definition normalize_task_record :: "env \<Rightarrow> task \<Rightarrow> nat \<Rightarrow> task \<times> nat" where
  "normalize_task_record e task n =
    (let rec = task;
         rec = setdefault rec ''id''
                 (JStr (''task-'' @ str_nat (nat \<bar>hash e (get_default task ''canonical_text'' (JStr '''')) (now_iso e n)\<bar>)));
         n = n + 1;
         rec = setdefault rec ''title''
                 (py_or (py_or (get task ''canonical_text'') (get task ''title'')) (JStr ''Untitled Task''));
         rec = setdefault rec ''status'' (py_or (get task ''status'') (JStr ''todo''));
         rec = setdefault rec ''priority'' (py_or (get task ''priority'') (JStr ''medium''));
         (created, n) = (if truthy (get task ''created_at'') then (get task ''created_at'', n)
                         else (JStr (now_iso e n), n + 1));
         rec = setdefault rec ''created_at'' created;
         rec = setdefault rec ''updated_at'' (JStr (now_iso e n));
         n = n + 1;
         rec = rec(''note_id'' \<mapsto> get task ''note_id'');
         rec = rec(''user_id'' \<mapsto> get task ''user_id'');
         rec = rec(''workspace_id'' \<mapsto> get task ''workspace_id'');
         rec = rec(''due_date'' \<mapsto> get task ''due_date'');
         rec = rec(''due_time'' \<mapsto> get task ''due_time'');
         rec = rec(''completed_at'' \<mapsto> get task ''completed_at'');
         rec = rec(''confidence'' \<mapsto> get task ''confidence'');
         rec = rec(''source_text'' \<mapsto> get task ''source_text'')
     in (rec, n))"

subsection \<open>\<^verbatim>\<open>save_extracted_tasks\<close>\<close>

text \<open>
  \<^verbatim>\<open>index_by_id = {t.get("id"): i for i, t in enumerate(existing) if t.get("id")}\<close>:
  a later record with an equal id overwrites the entry of an earlier one. The dictionary is
  a function from keys to indices; \<open>index_from i rows d\<close> adds the entries of \<open>rows\<close>,
  enumerated from \<open>i\<close>, to \<open>d\<close>.
\<close>

fun index_from :: "nat \<Rightarrow> task list \<Rightarrow> (jval \<Rightarrow> nat option) \<Rightarrow> (jval \<Rightarrow> nat option)" where
  "index_from i [] d = d"
| "index_from i (t # ts) d =
     index_from (Suc i) ts
       (if truthy (get t ''id'') then (\<lambda>k. if py_eq k (get t ''id'') then Some i else d k) else d)"

definition index_by_id :: "task list \<Rightarrow> jval \<Rightarrow> nat option" where
  "index_by_id existing = index_from 0 existing (\<lambda>k. None)"

text \<open>
  The body of \<^verbatim>\<open>for raw in tasks\<close>. The index is the one built before the loop: it is not
  extended when a record is appended.
\<close>

fun save_loop :: "env \<Rightarrow> (jval \<Rightarrow> nat option) \<Rightarrow> task list \<Rightarrow> task list \<times> nat \<times> nat
                    \<Rightarrow> task list \<times> nat \<times> nat" where
  "save_loop e idx [] acc = acc"
| "save_loop e idx (raw # raws) (existing, n, written) =
     (let (rec, n) = normalize_task_record e raw n;
          rec = rec(''updated_at'' \<mapsto> JStr (now_iso e n));
          n = n + 1;
          tid = get rec ''id'';
          existing = (case idx tid of Some i \<Rightarrow> existing[i := rec] | None \<Rightarrow> existing @ [rec])
      in save_loop e idx raws (existing, n, written + 1))"

definition save_extracted_tasks :: "env \<Rightarrow> task list \<Rightarrow> state \<Rightarrow> nat \<times> state" where
  "save_extracted_tasks e tasks s =
    (if tasks = [] then (0, s)
     else
       let existing = tasks_file s;
           (existing, n, written) = save_loop e (index_by_id existing) tasks (existing, clock s, 0)
       in (written, \<lparr>tasks_file = existing, clock = n\<rparr>))"

subsection \<open>Queries\<close>

text \<open>
  Python's \<^verbatim>\<open><\<close> and \<^verbatim>\<open><=\<close> on scalars: strings compare with strings, numbers and booleans
  with each other (\<^verbatim>\<open>True\<close> is 1), and every other pair raises \<^verbatim>\<open>TypeError\<close> (\<open>None\<close> here).
\<close>

fun py_lt :: "jval \<Rightarrow> jval \<Rightarrow> bool option" where
  "py_lt (JStr a) (JStr b) = Some (a < b)"
| "py_lt (JNum a) (JNum b) = Some (a < b)"
| "py_lt (JNum a) (JBool b) = Some (a < (if b then 1 else 0))"
| "py_lt (JBool a) (JNum b) = Some ((if a then 1 else 0) < b)"
| "py_lt (JBool a) (JBool b) = Some (\<not> a \<and> b)"
| "py_lt _ _ = None"

fun py_le :: "jval \<Rightarrow> jval \<Rightarrow> bool option" where
  "py_le (JStr a) (JStr b) = Some (a \<le> b)"
| "py_le (JNum a) (JNum b) = Some (a \<le> b)"
| "py_le (JNum a) (JBool b) = Some (a \<le> (if b then 1 else 0))"
| "py_le (JBool a) (JNum b) = Some ((if a then 1 else 0) \<le> b)"
| "py_le (JBool a) (JBool b) = Some (a \<longrightarrow> b)"
| "py_le _ _ = None"

text \<open>The sort key \<^verbatim>\<open>(x.get("due_date") or "9999-12-31", x.get("due_time") or "23:59")\<close>.\<close>

definition sort_key_of :: "task \<Rightarrow> jval \<times> jval" where
  "sort_key_of x = (py_or (get x ''due_date'') (JStr ''9999-12-31''),
                    py_or (get x ''due_time'') (JStr ''23:59''))"

text \<open>Python's \<^verbatim>\<open><\<close> on pairs: the first components that differ under \<^verbatim>\<open>==\<close> decide.\<close>

fun tuple_lt :: "jval \<times> jval \<Rightarrow> jval \<times> jval \<Rightarrow> bool option" where
  "tuple_lt (a1, b1) (a2, b2) =
     (if \<not> py_eq a1 a2 then py_lt a1 a2
      else if \<not> py_eq b1 b2 then py_lt b1 b2
      else Some False)"

text \<open>
  \<^verbatim>\<open>list.sort(key=...)\<close> is a stable sort that raises \<^verbatim>\<open>TypeError\<close> when it compares two keys
  that Python cannot order. It is modelled by stable insertion from left to right: an element
  goes before the first element whose key is greater. On keys that are mutually comparable
  every stable sort returns this list; which pairs of keys CPython's sort compares otherwise
  is not modelled, so for keys of mixed types the model may raise where CPython does not.
\<close>

fun py_insert :: "('a \<Rightarrow> jval \<times> jval) \<Rightarrow> 'a \<Rightarrow> 'a list \<Rightarrow> error + 'a list" where
  "py_insert key x [] = Inr [x]"
| "py_insert key x (y # ys) =
     (case tuple_lt (key x) (key y) of
        None \<Rightarrow> Inl TypeError
      | Some True \<Rightarrow> Inr (x # y # ys)
      | Some False \<Rightarrow> (case py_insert key x ys of Inl err \<Rightarrow> Inl err | Inr zs \<Rightarrow> Inr (y # zs)))"

fun py_sort_into :: "('a \<Rightarrow> jval \<times> jval) \<Rightarrow> 'a list \<Rightarrow> 'a list \<Rightarrow> error + 'a list" where
  "py_sort_into key [] acc = Inr acc"
| "py_sort_into key (x # xs) acc =
     (case py_insert key x acc of Inl err \<Rightarrow> Inl err | Inr acc' \<Rightarrow> py_sort_into key xs acc')"

definition py_sort :: "('a \<Rightarrow> jval \<times> jval) \<Rightarrow> 'a list \<Rightarrow> error + 'a list" where
  "py_sort key xs = py_sort_into key xs []"

text \<open>An optional filter: \<^verbatim>\<open>want is not None and v != want\<close>.\<close>

definition differs :: "string option \<Rightarrow> jval \<Rightarrow> bool" where
  "differs want v = (case want of None \<Rightarrow> False | Some w \<Rightarrow> \<not> py_eq v (JStr w))"

text \<open>
  The loop of \<^verbatim>\<open>get_tasks_by_date_range\<close>. \<^verbatim>\<open>start_date <= due <= end_date\<close> compares the
  strings \<^verbatim>\<open>start_date\<close> and \<^verbatim>\<open>end_date\<close> with \<^verbatim>\<open>due\<close>, and raises when \<^verbatim>\<open>due\<close> is truthy
  and not a string.
\<close>

fun date_range_loop :: "string \<Rightarrow> string \<Rightarrow> string option \<Rightarrow> string option \<Rightarrow> bool
                          \<Rightarrow> task list \<Rightarrow> error + task list" where
  "date_range_loop start_date end_date workspace_id user_id include_done [] = Inr []"
| "date_range_loop start_date end_date workspace_id user_id include_done (t # rows) =
     (let due = get t ''due_date'';
          rest = date_range_loop start_date end_date workspace_id user_id include_done rows
      in if \<not> truthy due then rest
         else case py_le (JStr start_date) due of
                None \<Rightarrow> Inl TypeError
              | Some False \<Rightarrow> rest
              | Some True \<Rightarrow>
                 (case py_le due (JStr end_date) of
                    None \<Rightarrow> Inl TypeError
                  | Some False \<Rightarrow> rest
                  | Some True \<Rightarrow>
                     if differs workspace_id (get t ''workspace_id'') then rest
                     else if differs user_id (get t ''user_id'') then rest
                     else if \<not> include_done \<and> py_eq (get t ''status'') (JStr ''done'') then rest
                     else (case rest of Inl err \<Rightarrow> Inl err | Inr results \<Rightarrow> Inr (t # results))))"

definition get_tasks_by_date_range ::
    "string \<Rightarrow> string \<Rightarrow> string option \<Rightarrow> string option \<Rightarrow> bool \<Rightarrow> state \<Rightarrow> error + task list" where
  "get_tasks_by_date_range start_date end_date workspace_id user_id include_done s =
     (case date_range_loop start_date end_date workspace_id user_id include_done (tasks_file s) of
        Inl err \<Rightarrow> Inl err
      | Inr results \<Rightarrow> py_sort sort_key_of results)"

definition get_tasks_by_note :: "string \<Rightarrow> string option \<Rightarrow> state \<Rightarrow> error + task list" where
  "get_tasks_by_note note_id workspace_id s =
     py_sort sort_key_of (filter (\<lambda>t. py_eq (get t ''note_id'') (JStr note_id) \<and>
                                       \<not> differs workspace_id (get t ''workspace_id''))
                                 (tasks_file s))"

subsection \<open>Mutations of a single task\<close>

text \<open>\<^verbatim>\<open>for i, t in enumerate(rows): if t.get("id") == task_id: ...\<close> stops at the first match.\<close>

fun first_index :: "('a \<Rightarrow> bool) \<Rightarrow> 'a list \<Rightarrow> nat option" where
  "first_index P [] = None"
| "first_index P (x # xs) = (if P x then Some 0 else map_option Suc (first_index P xs))"

definition has_id :: "string \<Rightarrow> task \<Rightarrow> bool" where
  "has_id task_id t = py_eq (get t ''id'') (JStr task_id)"

definition allowed :: "string set" where
  "allowed = {''todo'', ''in_progress'', ''done'', ''archived''}"

definition update_task_status :: "env \<Rightarrow> string \<Rightarrow> string \<Rightarrow> state \<Rightarrow> (error + task) \<times> state" where
  "update_task_status e task_id status s =
    (if status \<notin> allowed then (Inl ValueError, s)
     else
       let rows = tasks_file s in
       case first_index (has_id task_id) rows of
         None \<Rightarrow> (Inl KeyError, s)
       | Some i \<Rightarrow>
           let t = rows ! i;
               t = t(''status'' \<mapsto> JStr status);
               t = t(''updated_at'' \<mapsto> JStr (now_iso e (clock s)));
               n = clock s + 1;
               (t, n) = (if status = ''done'' then (t(''completed_at'' \<mapsto> JStr (now_iso e n)), n + 1)
                         else (t(''completed_at'' \<mapsto> JNull), n))
           in (Inr t, \<lparr>tasks_file = rows[i := t], clock = n\<rparr>))"

definition reschedule_task :: "env \<Rightarrow> string \<Rightarrow> string \<Rightarrow> string option \<Rightarrow> state \<Rightarrow> (error + task) \<times> state" where
  "reschedule_task e task_id due_date due_time s =
    (let rows = tasks_file s in
     case first_index (has_id task_id) rows of
       None \<Rightarrow> (Inl KeyError, s)
     | Some i \<Rightarrow>
         let t = rows ! i;
             t = t(''due_date'' \<mapsto> JStr due_date);
             t = t(''due_time'' \<mapsto> (case due_time of None \<Rightarrow> JNull | Some tm \<Rightarrow> JStr tm));
             t = t(''updated_at'' \<mapsto> JStr (now_iso e (clock s)))
         in (Inr t, \<lparr>tasks_file = rows[i := t], clock = clock s + 1\<rparr>))"

definition delete_task :: "env \<Rightarrow> string \<Rightarrow> bool \<Rightarrow> state \<Rightarrow> (error + unit) \<times> state" where
  "delete_task e task_id soft_delete s =
    (let rows = tasks_file s in
     if soft_delete then
       (case first_index (has_id task_id) rows of
          None \<Rightarrow> (Inl KeyError, s)
        | Some i \<Rightarrow>
            let t = rows ! i;
                t = t(''status'' \<mapsto> JStr ''archived'');
                t = t(''updated_at'' \<mapsto> JStr (now_iso e (clock s)))
            in (Inr (), \<lparr>tasks_file = rows[i := t], clock = clock s + 1\<rparr>))
     else
       let new_rows = filter (\<lambda>t. \<not> has_id task_id t) rows in
       if length new_rows = length rows then (Inl KeyError, s)
       else (Inr (), s\<lparr>tasks_file := new_rows\<rparr>))"

subsection \<open>Two upserts whose steps interleave\<close>

text \<open>
  Nothing in \<^verbatim>\<open>storage.py\<close> holds a lock: \<^verbatim>\<open>_load\<close> opens and reads the file, \<^verbatim>\<open>_save\<close> opens
  and writes it, and \<^verbatim>\<open>save_extracted_tasks\<close> calls the one at line 130 and the other at line
  148 with the loop in between. So a second caller can load between the load and the store of
  a first one. \<open>save_extracted_tasks_from\<close> is the method with its load taken out: the list
  \<open>loaded\<close> is what \<^verbatim>\<open>self._load()\<close> returned to this caller, and \<open>s\<close> is the state in which
  the caller goes on; the store replaces the file by the list computed from \<open>loaded\<close>. A caller
  with an empty batch returns before it loads.
\<close>

definition save_extracted_tasks_from :: "env \<Rightarrow> task list \<Rightarrow> task list \<Rightarrow> state \<Rightarrow> nat \<times> state" where
  "save_extracted_tasks_from e tasks loaded s =
    (if tasks = [] then (0, s)
     else
       let existing = loaded;
           (existing, n, written) = save_loop e (index_by_id existing) tasks (existing, clock s, 0)
       in (written, \<lparr>tasks_file = existing, clock = n\<rparr>))"

text \<open>
  The schedule in which a caller with the batch \<open>a\<close> and a caller with the batch \<open>b\<close> both
  load, then the first runs its loop and stores, then the second runs its loop and stores.
\<close>

definition load_load_save_save :: "env \<Rightarrow> task list \<Rightarrow> task list \<Rightarrow> state \<Rightarrow> state" where
  "load_load_save_save e a b s =
    (let loaded_a = tasks_file s;
         loaded_b = tasks_file s;
         s = snd (save_extracted_tasks_from e a loaded_a s)
     in snd (save_extracted_tasks_from e b loaded_b s))"

subsection \<open>Notions used in the statements\<close>

text \<open>The record that one round of the loop stores, and the clock count after the round.\<close>

definition stamped :: "env \<Rightarrow> task \<Rightarrow> nat \<Rightarrow> task" where
  "stamped e raw n = (fst (normalize_task_record e raw n))
                       (''updated_at'' \<mapsto> JStr (now_iso e (snd (normalize_task_record e raw n))))"

definition clock_after :: "env \<Rightarrow> task \<Rightarrow> nat \<Rightarrow> nat" where
  "clock_after e raw n = snd (normalize_task_record e raw n) + 1"

text \<open>The records that a date-range query selects: the due date is a non-empty string within
  the bounds, the optional filters agree, and done records are dropped unless asked for.\<close>

definition in_range :: "string \<Rightarrow> string \<Rightarrow> string option \<Rightarrow> string option \<Rightarrow> bool \<Rightarrow> task \<Rightarrow> bool" where
  "in_range start_date end_date workspace_id user_id include_done t =
     (case get t ''due_date'' of
        JStr d \<Rightarrow> d \<noteq> [] \<and> start_date \<le> d \<and> d \<le> end_date \<and>
                  \<not> differs workspace_id (get t ''workspace_id'') \<and>
                  \<not> differs user_id (get t ''user_id'') \<and>
                  (include_done \<or> get t ''status'' \<noteq> JStr ''done'')
      | _ \<Rightarrow> False)"





subsection \<open>Properties of records and sample data\<close>

text \<open>The completion invariant of a record: \<^verbatim>\<open>completed_at\<close> is non-null exactly when the
  status is \<^verbatim>\<open>done\<close>.\<close>

definition completed_inv :: "task \<Rightarrow> bool" where
  "completed_inv t = ((get t ''completed_at'' \<noteq> JNull) = (get t ''status'' = JStr ''done''))"

text \<open>The status of a record is one of the four values of \<open>allowed\<close>.\<close>

definition status_ok :: "task \<Rightarrow> bool" where
  "status_ok t = (get t ''status'' \<in> JStr ` allowed)"

text \<open>The ids of the stored records, in collection order.\<close>

definition ids :: "state \<Rightarrow> jval list" where
  "ids s = map (\<lambda>t. get t ''id'') (tasks_file s)"

text \<open>A clock whose first four readings fall on one day and the later ones on the next,
  a constant hash, and the empty store.\<close>

definition sample_env :: env where
  "sample_env = \<lparr>now_iso = (\<lambda>k. if k < 4 then ''2024-01-01T09:00:00'' else ''2024-01-02T09:00:00''),
                  hash = (\<lambda>v ts. 7)\<rparr>"

definition empty_store :: state where
  "empty_store = \<lparr>tasks_file = [], clock = 0\<rparr>"

text \<open>Four records: two due in January 2024, one in February, one without a due date.\<close>

definition task_a :: task where
  "task_a = [''id'' \<mapsto> JStr ''a'', ''note_id'' \<mapsto> JStr ''n1'', ''status'' \<mapsto> JStr ''done'',
             ''completed_at'' \<mapsto> JStr ''2023-12-31T08:00:00'', ''created_at'' \<mapsto> JStr ''2023-12-01T08:00:00'',
             ''due_date'' \<mapsto> JStr ''2024-01-15'', ''due_time'' \<mapsto> JNull]"

definition task_b :: task where
  "task_b = [''id'' \<mapsto> JStr ''b'', ''note_id'' \<mapsto> JStr ''n1'', ''status'' \<mapsto> JStr ''todo'',
             ''completed_at'' \<mapsto> JNull, ''created_at'' \<mapsto> JStr ''2023-12-02T08:00:00'',
             ''due_date'' \<mapsto> JStr ''2024-01-01'', ''due_time'' \<mapsto> JStr ''09:30'']"

definition task_c :: task where
  "task_c = [''id'' \<mapsto> JStr ''c'', ''note_id'' \<mapsto> JStr ''n2'', ''status'' \<mapsto> JStr ''todo'',
             ''completed_at'' \<mapsto> JNull, ''created_at'' \<mapsto> JStr ''2023-12-03T08:00:00'',
             ''due_date'' \<mapsto> JStr ''2024-02-01'', ''due_time'' \<mapsto> JNull]"

definition task_d :: task where
  "task_d = [''id'' \<mapsto> JStr ''d'', ''note_id'' \<mapsto> JStr ''n2'', ''status'' \<mapsto> JStr ''in_progress'',
             ''completed_at'' \<mapsto> JNull, ''created_at'' \<mapsto> JStr ''2023-12-04T08:00:00'',
             ''due_date'' \<mapsto> JNull, ''due_time'' \<mapsto> JNull]"

definition sample_store :: state where
  "sample_store = \<lparr>tasks_file = [task_a, task_b, task_c, task_d], clock = 0\<rparr>"

text \<open>A store in which the id \<^verbatim>\<open>a\<close> occurs twice, at the indices 1 and 3.\<close>

definition dup_store :: state where
  "dup_store = \<lparr>tasks_file = [task_b, task_a, task_c, task_a(''title'' \<mapsto> JStr ''copy'')], clock = 0\<rparr>"







section \<open>Basic facts\<close>

lemma py_eq_JStr [simp]: "py_eq v (JStr w) \<longleftrightarrow> v = JStr w"
  by (cases v) simp_all

lemma py_eq_JStr_left [simp]: "py_eq (JStr w) v \<longleftrightarrow> v = JStr w"
  by (cases v) auto

lemma has_id_iff: "has_id task_id t \<longleftrightarrow> get t ''id'' = JStr task_id"
  by (simp add: has_id_def)

lemma get_upd [simp]: "get (t(k \<mapsto> v)) k' = (if k' = k then v else get t k')"
  by (simp add: get_def get_default_def)

lemma first_index_Some_iff:
  "first_index P xs = Some i \<longleftrightarrow> i < length xs \<and> P (xs ! i) \<and> (\<forall>j<i. \<not> P (xs ! j))"
proof (induction xs arbitrary: i)
  case Nil
  then show ?case by simp
next
  case (Cons x xs)
  show ?case
  proof (cases "P x")
    case True
    then show ?thesis by (cases i) auto
  next
    case False
    show ?thesis
    proof (cases i)
      case 0
      with False show ?thesis by auto
    next
      case (Suc k)
      have "(\<forall>j<Suc k. \<not> P ((x # xs) ! j)) \<longleftrightarrow> (\<forall>j<k. \<not> P (xs ! j))"
        using False by (auto simp: less_Suc_eq_0_disj)
      with False Suc Cons.IH [of k] show ?thesis by auto
    qed
  qed
qed

lemma first_index_None_iff: "first_index P xs = None \<longleftrightarrow> (\<forall>x\<in>set xs. \<not> P x)"
  by (induction xs) auto

lemma first_index_exists: "\<exists>x\<in>set xs. P x \<Longrightarrow> \<exists>i. first_index P xs = Some i"
  using first_index_None_iff [of P xs] by (cases "first_index P xs") auto

lemma length_filter_eq_iff: "length (filter P xs) = length xs \<longleftrightarrow> (\<forall>x\<in>set xs. P x)"
  by (metis filter_id_conv length_filter_less less_irrefl)

subsection \<open>The three outcomes of \<open>update_task_status\<close>, and those of its siblings\<close>

lemma update_task_status_invalid:
  "status \<notin> allowed \<Longrightarrow> update_task_status e task_id status s = (Inl ValueError, s)"
  by (simp add: update_task_status_def)

lemma update_task_status_missing:
  "status \<in> allowed \<Longrightarrow> first_index (has_id task_id) (tasks_file s) = None
   \<Longrightarrow> update_task_status e task_id status s = (Inl KeyError, s)"
  by (simp add: update_task_status_def)

lemma update_task_status_found:
  assumes "status \<in> allowed" and "first_index (has_id task_id) (tasks_file s) = Some i"
  shows "update_task_status e task_id status s =
           (let t = (tasks_file s ! i)(''status'' \<mapsto> JStr status,
                       ''updated_at'' \<mapsto> JStr (now_iso e (clock s)),
                       ''completed_at'' \<mapsto> (if status = ''done'' then JStr (now_iso e (clock s + 1)) else JNull))
            in (Inr t, \<lparr>tasks_file = (tasks_file s)[i := t],
                         clock = (if status = ''done'' then clock s + 2 else clock s + 1)\<rparr>))"
  using assms by (simp add: update_task_status_def Let_def)

lemma reschedule_task_missing:
  "first_index (has_id task_id) (tasks_file s) = None
   \<Longrightarrow> reschedule_task e task_id due_date due_time s = (Inl KeyError, s)"
  by (simp add: reschedule_task_def)

lemma reschedule_task_found:
  assumes "first_index (has_id task_id) (tasks_file s) = Some i"
  shows "reschedule_task e task_id due_date due_time s =
           (let t = (tasks_file s ! i)(''due_date'' \<mapsto> JStr due_date,
                       ''due_time'' \<mapsto> (case due_time of None \<Rightarrow> JNull | Some tm \<Rightarrow> JStr tm),
                       ''updated_at'' \<mapsto> JStr (now_iso e (clock s)))
            in (Inr t, \<lparr>tasks_file = (tasks_file s)[i := t], clock = clock s + 1\<rparr>))"
  using assms by (simp add: reschedule_task_def Let_def)

lemma soft_delete_missing:
  "first_index (has_id task_id) (tasks_file s) = None
   \<Longrightarrow> delete_task e task_id True s = (Inl KeyError, s)"
  by (simp add: delete_task_def)

lemma soft_delete_found:
  assumes "first_index (has_id task_id) (tasks_file s) = Some i"
  shows "delete_task e task_id True s =
           (Inr (), \<lparr>tasks_file = (tasks_file s)[i := (tasks_file s ! i)(''status'' \<mapsto> JStr ''archived'',
                                     ''updated_at'' \<mapsto> JStr (now_iso e (clock s)))],
                      clock = clock s + 1\<rparr>)"
  using assms by (simp add: delete_task_def Let_def)

lemma hard_delete_missing:
  "\<forall>t\<in>set (tasks_file s). \<not> has_id task_id t
   \<Longrightarrow> delete_task e task_id False s = (Inl KeyError, s)"
  by (simp add: delete_task_def Let_def length_filter_eq_iff)

lemma hard_delete_found:
  "\<exists>t\<in>set (tasks_file s). has_id task_id t
   \<Longrightarrow> delete_task e task_id False s =
         (Inr (), s\<lparr>tasks_file := filter (\<lambda>t. \<not> has_id task_id t) (tasks_file s)\<rparr>)"
  by (simp add: delete_task_def Let_def length_filter_eq_iff)


section \<open>Errors and the unchanged store\<close>

lemma update_task_status_error_iff:
  "fst (update_task_status e task_id status s) = Inl err \<longleftrightarrow>
     (status \<notin> allowed \<and> err = ValueError) \<or>
     (status \<in> allowed \<and> (\<forall>t\<in>set (tasks_file s). \<not> has_id task_id t) \<and> err = KeyError)"
proof (cases "status \<in> allowed")
  case False
  then show ?thesis by (auto simp: update_task_status_invalid)
next
  case True
  show ?thesis
  proof (cases "first_index (has_id task_id) (tasks_file s)")
    case None
    with True show ?thesis
      by (auto simp: update_task_status_missing first_index_None_iff)
  next
    case (Some i)
    then have "\<exists>t\<in>set (tasks_file s). has_id task_id t"
      by (auto simp: first_index_Some_iff)
    with True Some show ?thesis
      by (auto simp: update_task_status_found Let_def)
  qed
qed

lemma reschedule_task_error_iff:
  "fst (reschedule_task e task_id due_date due_time s) = Inl err \<longleftrightarrow>
     (\<forall>t\<in>set (tasks_file s). \<not> has_id task_id t) \<and> err = KeyError"
proof (cases "first_index (has_id task_id) (tasks_file s)")
  case None
  then show ?thesis
    by (auto simp: reschedule_task_missing first_index_None_iff)
next
  case (Some i)
  then have "\<exists>t\<in>set (tasks_file s). has_id task_id t"
    by (auto simp: first_index_Some_iff)
  with Some show ?thesis
    by (auto simp: reschedule_task_found Let_def)
qed

lemma delete_task_error_iff:
  "fst (delete_task e task_id soft s) = Inl err \<longleftrightarrow>
     (\<forall>t\<in>set (tasks_file s). \<not> has_id task_id t) \<and> err = KeyError"
proof (cases soft)
  case False
  then show ?thesis
    by (cases "\<exists>t\<in>set (tasks_file s). has_id task_id t")
       (auto simp: hard_delete_found hard_delete_missing)
next
  case True
  show ?thesis
  proof (cases "first_index (has_id task_id) (tasks_file s)")
    case None
    with True show ?thesis
      by (auto simp: soft_delete_missing first_index_None_iff)
  next
    case (Some i)
    then have "\<exists>t\<in>set (tasks_file s). has_id task_id t"
      by (auto simp: first_index_Some_iff)
    with True Some show ?thesis
      by (auto simp: soft_delete_found)
  qed
qed

lemma update_task_status_error_unchanged:
  "fst (update_task_status e task_id status s) = Inl err \<Longrightarrow> snd (update_task_status e task_id status s) = s"
  by (auto simp: update_task_status_def Let_def split: if_splits option.splits prod.splits)

lemma reschedule_task_error_unchanged:
  "fst (reschedule_task e task_id due_date due_time s) = Inl err
   \<Longrightarrow> snd (reschedule_task e task_id due_date due_time s) = s"
  by (auto simp: reschedule_task_def Let_def split: option.splits)

lemma delete_task_error_unchanged:
  "fst (delete_task e task_id soft s) = Inl err \<Longrightarrow> snd (delete_task e task_id soft s) = s"
  by (auto simp: delete_task_def Let_def split: if_splits option.splits)

text \<open>
  Claim C6, as amended. \<open>update_task_status\<close> raises \<open>ValueError\<close> (InvalidArgument) exactly
  when the status is outside the four allowed values. It raises \<open>KeyError\<close> (NotFound) exactly
  when the status is allowed and no record has the given id: the status is validated first.
  \<open>reschedule_task\<close> and \<open>delete_task\<close>, in both modes, raise \<open>KeyError\<close> exactly when no
  record has the given id. Whenever one of the three raises, the state after the call is the
  state before it.
\<close>

theorem C6_errors_leave_store_unchanged:
  "(fst (update_task_status e task_id status s) = Inl ValueError \<longleftrightarrow> status \<notin> allowed) \<and>
   (fst (update_task_status e task_id status s) = Inl KeyError \<longleftrightarrow>
      status \<in> allowed \<and> (\<forall>t\<in>set (tasks_file s). \<not> has_id task_id t)) \<and>
   (fst (reschedule_task e task_id due_date due_time s) = Inl KeyError \<longleftrightarrow>
      (\<forall>t\<in>set (tasks_file s). \<not> has_id task_id t)) \<and>
   (fst (delete_task e task_id soft s) = Inl KeyError \<longleftrightarrow>
      (\<forall>t\<in>set (tasks_file s). \<not> has_id task_id t)) \<and>
   (\<forall>err. fst (update_task_status e task_id status s) = Inl err \<longrightarrow>
      snd (update_task_status e task_id status s) = s \<and> (err = ValueError \<or> err = KeyError)) \<and>
   (\<forall>err. fst (reschedule_task e task_id due_date due_time s) = Inl err \<longrightarrow>
      snd (reschedule_task e task_id due_date due_time s) = s \<and> err = KeyError) \<and>
   (\<forall>err. fst (delete_task e task_id soft s) = Inl err \<longrightarrow>
      snd (delete_task e task_id soft s) = s \<and> err = KeyError)"
proof (intro conjI allI impI)
  show "fst (update_task_status e task_id status s) = Inl ValueError \<longleftrightarrow> status \<notin> allowed"
    by (simp add: update_task_status_error_iff)
  show "fst (update_task_status e task_id status s) = Inl KeyError \<longleftrightarrow>
      status \<in> allowed \<and> (\<forall>t\<in>set (tasks_file s). \<not> has_id task_id t)"
    by (simp add: update_task_status_error_iff)
  show "fst (reschedule_task e task_id due_date due_time s) = Inl KeyError \<longleftrightarrow>
      (\<forall>t\<in>set (tasks_file s). \<not> has_id task_id t)"
    by (simp add: reschedule_task_error_iff)
  show "fst (delete_task e task_id soft s) = Inl KeyError \<longleftrightarrow>
      (\<forall>t\<in>set (tasks_file s). \<not> has_id task_id t)"
    by (simp add: delete_task_error_iff)
next
  fix err assume "fst (update_task_status e task_id status s) = Inl err"
  then show "snd (update_task_status e task_id status s) = s"
    by (rule update_task_status_error_unchanged)
next
  fix err assume "fst (update_task_status e task_id status s) = Inl err"
  then show "err = ValueError \<or> err = KeyError"
    by (auto simp: update_task_status_error_iff)
next
  fix err assume "fst (reschedule_task e task_id due_date due_time s) = Inl err"
  then show "snd (reschedule_task e task_id due_date due_time s) = s"
    by (rule reschedule_task_error_unchanged)
next
  fix err assume "fst (reschedule_task e task_id due_date due_time s) = Inl err"
  then show "err = KeyError"
    by (simp add: reschedule_task_error_iff)
next
  fix err assume "fst (delete_task e task_id soft s) = Inl err"
  then show "snd (delete_task e task_id soft s) = s"
    by (rule delete_task_error_unchanged)
next
  fix err assume "fst (delete_task e task_id soft s) = Inl err"
  then show "err = KeyError"
    by (simp add: delete_task_error_iff)
qed

theorem C6_errors_witness:
  "''bogus'' \<notin> allowed \<and>
   fst (update_task_status sample_env ''nonexistent-id'' ''bogus'' empty_store) = Inl ValueError \<and>
   snd (update_task_status sample_env ''nonexistent-id'' ''bogus'' empty_store) = empty_store \<and>
   fst (reschedule_task sample_env ''nonexistent-id'' ''2024-01-01'' None empty_store) = Inl KeyError \<and>
   snd (reschedule_task sample_env ''nonexistent-id'' ''2024-01-01'' None empty_store) = empty_store"
  using C6_errors_leave_store_unchanged [of sample_env "''nonexistent-id''" "''bogus''" empty_store
          "''2024-01-01''" None True]
  by (simp add: allowed_def empty_store_def)

text \<open>
  The claim as stated fails where no record matches and the status is invalid as well:
  \<open>update_task_status\<close> then raises \<open>ValueError\<close>, not \<open>KeyError\<close>.
\<close>

theorem C6_invalid_status_wins_counterexample:
  "tasks_file empty_store = [] \<and>
   fst (update_task_status sample_env ''nonexistent-id'' ''bogus'' empty_store) = Inl ValueError \<and>
   fst (update_task_status sample_env ''nonexistent-id'' ''bogus'' empty_store) \<noteq> Inl KeyError"
  by (simp add: update_task_status_def allowed_def empty_store_def)

section \<open>Rescheduling\<close>

text \<open>
  Claim C8. For an id that some record has, \<open>reschedule_task\<close> succeeds and rewrites the first
  record with that id: \<open>due_date\<close> and \<open>due_time\<close> are overwritten (\<open>due_time\<close> with null when
  omitted), \<open>updated_at\<close> is the current time, every other key of that record (in particular
  \<open>status\<close> and \<open>completed_at\<close>) keeps its value, and every other record is unchanged.
\<close>

theorem C8_reschedule_frame:
  assumes "\<exists>t\<in>set (tasks_file s). has_id task_id t"
  shows "\<exists>i t'. i < length (tasks_file s) \<and> has_id task_id (tasks_file s ! i) \<and>
           reschedule_task e task_id due_date due_time s =
             (Inr t', \<lparr>tasks_file = (tasks_file s)[i := t'], clock = clock s + 1\<rparr>) \<and>
           get t' ''due_date'' = JStr due_date \<and>
           get t' ''due_time'' = (case due_time of None \<Rightarrow> JNull | Some tm \<Rightarrow> JStr tm) \<and>
           get t' ''updated_at'' = JStr (now_iso e (clock s)) \<and>
           get t' ''status'' = get (tasks_file s ! i) ''status'' \<and>
           get t' ''completed_at'' = get (tasks_file s ! i) ''completed_at'' \<and>
           (\<forall>k. k \<notin> {''due_date'', ''due_time'', ''updated_at''} \<longrightarrow> t' k = (tasks_file s ! i) k) \<and>
           (\<forall>j. j \<noteq> i \<longrightarrow> (tasks_file s)[i := t'] ! j = tasks_file s ! j) \<and>
           length ((tasks_file s)[i := t']) = length (tasks_file s)"
proof -
  from first_index_exists [OF assms]
  obtain i where i: "first_index (has_id task_id) (tasks_file s) = Some i" ..
  define t' where "t' = (tasks_file s ! i)(''due_date'' \<mapsto> JStr due_date,
                       ''due_time'' \<mapsto> (case due_time of None \<Rightarrow> JNull | Some tm \<Rightarrow> JStr tm),
                       ''updated_at'' \<mapsto> JStr (now_iso e (clock s)))"
  have b: "i < length (tasks_file s)" and h: "has_id task_id (tasks_file s ! i)"
    using i by (simp_all add: first_index_Some_iff)
  have r: "reschedule_task e task_id due_date due_time s =
             (Inr t', \<lparr>tasks_file = (tasks_file s)[i := t'], clock = clock s + 1\<rparr>)"
    using reschedule_task_found [OF i, of e due_date due_time] by (simp add: Let_def t'_def)
  have f1: "get t' ''due_date'' = JStr due_date" by (simp add: t'_def)
  have f2: "get t' ''due_time'' = (case due_time of None \<Rightarrow> JNull | Some tm \<Rightarrow> JStr tm)"
    by (simp add: t'_def)
  have f3: "get t' ''updated_at'' = JStr (now_iso e (clock s))" by (simp add: t'_def)
  have f4: "get t' ''status'' = get (tasks_file s ! i) ''status''" by (simp add: t'_def)
  have f5: "get t' ''completed_at'' = get (tasks_file s ! i) ''completed_at''" by (simp add: t'_def)
  have f6: "\<forall>k. k \<notin> {''due_date'', ''due_time'', ''updated_at''} \<longrightarrow> t' k = (tasks_file s ! i) k"
    by (simp add: t'_def)
  have f7: "\<forall>j. j \<noteq> i \<longrightarrow> (tasks_file s)[i := t'] ! j = tasks_file s ! j" by simp
  have f8: "length ((tasks_file s)[i := t']) = length (tasks_file s)" by simp
  show ?thesis
    using b h r f1 f2 f3 f4 f5 f6 f7 f8 by blast
qed

theorem C8_reschedule_witness:
  "(\<exists>t\<in>set (tasks_file sample_store). has_id ''a'' t) \<and>
   fst (reschedule_task sample_env ''a'' ''2024-02-01'' None sample_store) \<noteq> Inl KeyError \<and>
   (\<exists>i t'. i < length (tasks_file sample_store) \<and>
      reschedule_task sample_env ''a'' ''2024-02-01'' None sample_store =
        (Inr t', \<lparr>tasks_file = (tasks_file sample_store)[i := t'], clock = clock sample_store + 1\<rparr>) \<and>
      get t' ''due_date'' = JStr ''2024-02-01'' \<and> get t' ''due_time'' = JNull \<and>
      get t' ''status'' = get (tasks_file sample_store ! i) ''status'' \<and>
      get t' ''completed_at'' = get (tasks_file sample_store ! i) ''completed_at'')"
proof -
  have h: "\<exists>t\<in>set (tasks_file sample_store). has_id ''a'' t"
    by (simp add: sample_store_def task_a_def has_id_def)
  from C8_reschedule_frame [OF h, of sample_env "''2024-02-01''" None]
  obtain i t' where *: "i < length (tasks_file sample_store)"
      "reschedule_task sample_env ''a'' ''2024-02-01'' None sample_store =
        (Inr t', \<lparr>tasks_file = (tasks_file sample_store)[i := t'], clock = clock sample_store + 1\<rparr>)"
      "get t' ''due_date'' = JStr ''2024-02-01''"
      "get t' ''due_time'' = (case None of None \<Rightarrow> JNull | Some tm \<Rightarrow> JStr tm)"
      "get t' ''status'' = get (tasks_file sample_store ! i) ''status''"
      "get t' ''completed_at'' = get (tasks_file sample_store ! i) ''completed_at''"
    by blast
  from *(2) have ok: "fst (reschedule_task sample_env ''a'' ''2024-02-01'' None sample_store) \<noteq> Inl KeyError"
    by simp
  from *(4) have "get t' ''due_time'' = JNull" by simp
  with * have "\<exists>i t'. i < length (tasks_file sample_store) \<and>
      reschedule_task sample_env ''a'' ''2024-02-01'' None sample_store =
        (Inr t', \<lparr>tasks_file = (tasks_file sample_store)[i := t'], clock = clock sample_store + 1\<rparr>) \<and>
      get t' ''due_date'' = JStr ''2024-02-01'' \<and> get t' ''due_time'' = JNull \<and>
      get t' ''status'' = get (tasks_file sample_store ! i) ''status'' \<and>
      get t' ''completed_at'' = get (tasks_file sample_store ! i) ''completed_at''"
    by blast
  with h ok show ?thesis by blast
qed

section \<open>Records that share an id\<close>

text \<open>
  Claim C10. Let the first record with the given id be at index \<open>i\<close> and let a later record
  at index \<open>j\<close> have the same id. Hard delete removes every record with that id.
  \<open>update_task_status\<close> (with an allowed status), \<open>reschedule_task\<close> and soft delete succeed,
  rewrite the record at index \<open>i\<close> only, and leave every other record, the duplicate at \<open>j\<close>
  among them, as it was.
\<close>

theorem C10_duplicates:
  assumes "first_index (has_id task_id) (tasks_file s) = Some i"
      and "i < j" and "j < length (tasks_file s)" and "has_id task_id (tasks_file s ! j)"
      and "status \<in> allowed"
  shows "fst (delete_task e task_id False s) = Inr () \<and>
         tasks_file (snd (delete_task e task_id False s)) = filter (\<lambda>t. \<not> has_id task_id t) (tasks_file s) \<and>
         (\<forall>t\<in>set (tasks_file (snd (delete_task e task_id False s))). \<not> has_id task_id t) \<and>
         length (tasks_file (snd (delete_task e task_id False s))) + 2 \<le> length (tasks_file s) \<and>
         (\<exists>t'. update_task_status e task_id status s =
                 (Inr t', \<lparr>tasks_file = (tasks_file s)[i := t'],
                            clock = (if status = ''done'' then clock s + 2 else clock s + 1)\<rparr>) \<and>
               get t' ''status'' = JStr status) \<and>
         (\<exists>t'. reschedule_task e task_id due_date due_time s =
                 (Inr t', \<lparr>tasks_file = (tasks_file s)[i := t'], clock = clock s + 1\<rparr>) \<and>
               get t' ''due_date'' = JStr due_date) \<and>
         (\<exists>t'. delete_task e task_id True s =
                 (Inr (), \<lparr>tasks_file = (tasks_file s)[i := t'], clock = clock s + 1\<rparr>) \<and>
               get t' ''status'' = JStr ''archived'') \<and>
         (\<forall>t' m. m \<noteq> i \<longrightarrow> (tasks_file s)[i := t'] ! m = tasks_file s ! m) \<and>
         (\<forall>t'. (tasks_file s)[i := t'] ! j = tasks_file s ! j) \<and>
         (\<forall>m<i. \<not> has_id task_id (tasks_file s ! m))"
proof -
  let ?rows = "tasks_file s"
  let ?P = "\<lambda>t. \<not> has_id task_id t"
  from assms(1) have i: "i < length ?rows" "has_id task_id (?rows ! i)" "\<forall>m<i. \<not> has_id task_id (?rows ! m)"
    by (simp_all add: first_index_Some_iff)
  then have ex: "\<exists>t\<in>set ?rows. has_id task_id t"
    using nth_mem by blast
  have hard: "delete_task e task_id False s = (Inr (), s\<lparr>tasks_file := filter ?P ?rows\<rparr>)"
    using ex by (rule hard_delete_found)
  have two: "length (filter ?P ?rows) + 2 \<le> length ?rows"
  proof -
    have "{i, j} \<subseteq> {k. k < length ?rows \<and> \<not> ?P (?rows ! k)}"
      using i assms(3,4) by simp
    then have "card {i, j} \<le> card {k. k < length ?rows \<and> \<not> ?P (?rows ! k)}"
      by (intro card_mono) simp_all
    moreover have "card {i, j} = 2" using assms(2) by simp
    moreover have "length (filter (\<lambda>t. \<not> ?P t) ?rows) = card {k. k < length ?rows \<and> \<not> ?P (?rows ! k)}"
      by (rule length_filter_conv_card)
    moreover have "length (filter ?P ?rows) + length (filter (\<lambda>t. \<not> ?P t) ?rows) = length ?rows"
      by (rule sum_length_filter_compl)
    ultimately show ?thesis by linarith
  qed
  show ?thesis
  proof (intro conjI)
    show "fst (delete_task e task_id False s) = Inr ()" by (simp add: hard)
    show "tasks_file (snd (delete_task e task_id False s)) = filter ?P ?rows" by (simp add: hard)
    show "\<forall>t\<in>set (tasks_file (snd (delete_task e task_id False s))). \<not> has_id task_id t"
      by (simp add: hard)
    show "length (tasks_file (snd (delete_task e task_id False s))) + 2 \<le> length ?rows"
      using two by (simp add: hard)
    show "\<exists>t'. update_task_status e task_id status s =
                 (Inr t', \<lparr>tasks_file = ?rows[i := t'],
                            clock = (if status = ''done'' then clock s + 2 else clock s + 1)\<rparr>) \<and>
               get t' ''status'' = JStr status"
      using update_task_status_found [OF assms(5) assms(1), of e] by (simp add: Let_def)
    show "\<exists>t'. reschedule_task e task_id due_date due_time s =
                 (Inr t', \<lparr>tasks_file = ?rows[i := t'], clock = clock s + 1\<rparr>) \<and>
               get t' ''due_date'' = JStr due_date"
      using reschedule_task_found [OF assms(1), of e due_date due_time] by (simp add: Let_def)
    show "\<exists>t'. delete_task e task_id True s =
                 (Inr (), \<lparr>tasks_file = ?rows[i := t'], clock = clock s + 1\<rparr>) \<and>
               get t' ''status'' = JStr ''archived''"
      using soft_delete_found [OF assms(1), of e]
      by (intro exI [of _ "(?rows ! i)(''status'' \<mapsto> JStr ''archived'',
                            ''updated_at'' \<mapsto> JStr (now_iso e (clock s)))"]) simp
    show "\<forall>t' m. m \<noteq> i \<longrightarrow> ?rows[i := t'] ! m = ?rows ! m" by simp
    show "\<forall>t'. ?rows[i := t'] ! j = ?rows ! j" using assms(2) by simp
    show "\<forall>m<i. \<not> has_id task_id (?rows ! m)" using i(3) .
  qed
qed

theorem C10_duplicates_witness:
  "first_index (has_id ''a'') (tasks_file dup_store) = Some 1 \<and>
   has_id ''a'' (tasks_file dup_store ! 3) \<and> ''done'' \<in> allowed \<and>
   fst (delete_task sample_env ''a'' False dup_store) = Inr () \<and>
   length (tasks_file (snd (delete_task sample_env ''a'' False dup_store))) + 2 \<le> length (tasks_file dup_store) \<and>
   (\<exists>t'. delete_task sample_env ''a'' True dup_store =
           (Inr (), \<lparr>tasks_file = (tasks_file dup_store)[1 := t'], clock = clock dup_store + 1\<rparr>) \<and>
         get t' ''status'' = JStr ''archived'') \<and>
   (\<forall>t'. (tasks_file dup_store)[1 := t'] ! 3 = tasks_file dup_store ! 3)"
proof -
  have h1: "first_index (has_id ''a'') (tasks_file dup_store) = Some 1"
    by (simp add: dup_store_def task_a_def task_b_def task_c_def has_id_def)
  have h2: "(1::nat) < 3" by simp
  have h3: "3 < length (tasks_file dup_store)" by (simp add: dup_store_def)
  have h4: "has_id ''a'' (tasks_file dup_store ! 3)"
    by (simp add: dup_store_def task_a_def has_id_def)
  have h5: "''done'' \<in> allowed" by (simp add: allowed_def)
  note T = C10_duplicates [OF h1 h2 h3 h4 h5, of sample_env "''2024-03-01''" None]
  from T have c1: "fst (delete_task sample_env ''a'' False dup_store) = Inr ()" by (rule conjunct1)
  from T have c2: "length (tasks_file (snd (delete_task sample_env ''a'' False dup_store))) + 2
                      \<le> length (tasks_file dup_store)" by blast
  from T have c3: "\<exists>t'. delete_task sample_env ''a'' True dup_store =
           (Inr (), \<lparr>tasks_file = (tasks_file dup_store)[1 := t'], clock = clock dup_store + 1\<rparr>) \<and>
         get t' ''status'' = JStr ''archived''" by blast
  from T have c4: "\<forall>t'. (tasks_file dup_store)[1 := t'] ! 3 = tasks_file dup_store ! 3" by blast
  from h1 h4 h5 c1 c2 c3 c4 show ?thesis by blast
qed

section \<open>What normalization and the upsert loop store\<close>

lemma setdefault_apply:
  "setdefault d k v k' = (if k' = k then Some (case d k of None \<Rightarrow> v | Some w \<Rightarrow> w) else d k')"
  by (simp add: setdefault_def split: option.splits)

lemma normalize_status:
  "get (fst (normalize_task_record e raw n)) ''status'' =
     (case raw ''status'' of None \<Rightarrow> JStr ''todo'' | Some v \<Rightarrow> v)"
  by (simp add: normalize_task_record_def Let_def case_prod_beta setdefault_apply get_def
           get_default_def py_or_def split: option.splits)

lemma normalize_completed_at:
  "get (fst (normalize_task_record e raw n)) ''completed_at'' = get raw ''completed_at''"
  by (simp add: normalize_task_record_def Let_def case_prod_beta)

lemma normalize_created_at:
  "get (fst (normalize_task_record e raw n)) ''created_at'' =
     (case raw ''created_at'' of None \<Rightarrow> JStr (now_iso e (n + 1)) | Some v \<Rightarrow> v)"
  by (simp add: normalize_task_record_def Let_def case_prod_beta setdefault_apply get_def
           get_default_def py_or_def split: option.splits)

lemma normalize_id:
  "get (fst (normalize_task_record e raw n)) ''id'' =
     (case raw ''id'' of
        None \<Rightarrow> JStr (''task-'' @ str_nat (nat \<bar>hash e (get_default raw ''canonical_text'' (JStr '''')) (now_iso e n)\<bar>))
      | Some v \<Rightarrow> v)"
  by (simp add: normalize_task_record_def Let_def case_prod_beta setdefault_apply get_def
           get_default_def split: option.splits)

lemma save_loop_Cons:
  "save_loop e idx (raw # raws) (existing, n, written) =
     save_loop e idx raws
       ((case idx (get (stamped e raw n) ''id'') of
           Some i \<Rightarrow> existing[i := stamped e raw n]
         | None \<Rightarrow> existing @ [stamped e raw n]),
        clock_after e raw n, written + 1)"
  unfolding stamped_def clock_after_def by (simp add: Let_def case_prod_beta)

lemma stamped_get:
  "k \<noteq> ''updated_at'' \<Longrightarrow> get (stamped e raw n) k = get (fst (normalize_task_record e raw n)) k"
  by (simp add: stamped_def)

lemma save_loop_preserves:
  assumes "list_all P existing"
      and "\<forall>raw\<in>set raws. \<forall>m. P (stamped e raw m)"
  shows "list_all P (fst (save_loop e idx raws (existing, n, written)))"
  using assms
proof (induction raws arbitrary: existing n written)
  case Nil
  then show ?case by simp
next
  case (Cons raw raws)
  let ?rec = "stamped e raw n"
  let ?next = "case idx (get ?rec ''id'') of Some i \<Rightarrow> existing[i := ?rec] | None \<Rightarrow> existing @ [?rec]"
  have rec: "P ?rec" using Cons.prems(2) by simp
  have "set (existing[i := ?rec]) \<subseteq> insert ?rec (set existing)" for i
    by (rule set_update_subset_insert)
  with rec Cons.prems(1) have "list_all P (existing[i := ?rec])" for i
    by (auto simp: list_all_iff)
  with rec Cons.prems(1) have "list_all P ?next"
    by (cases "idx (get ?rec ''id'')") simp_all
  moreover have "\<forall>raw\<in>set raws. \<forall>m. P (stamped e raw m)" using Cons.prems(2) by simp
  ultimately have "list_all P (fst (save_loop e idx raws (?next, clock_after e raw n, written + 1)))"
    by (rule Cons.IH)
  then show ?case by (simp only: save_loop_Cons)
qed

lemma save_extracted_tasks_preserves:
  assumes "list_all P (tasks_file s)"
      and "\<forall>raw\<in>set tasks. \<forall>m. P (stamped e raw m)"
  shows "list_all P (tasks_file (snd (save_extracted_tasks e tasks s)))"
proof (cases "tasks = []")
  case True
  with assms(1) show ?thesis by (simp add: save_extracted_tasks_def)
next
  case False
  have "list_all P (fst (save_loop e (index_by_id (tasks_file s)) tasks (tasks_file s, clock s, 0)))"
    using assms by (rule save_loop_preserves)
  with False show ?thesis
    by (simp add: save_extracted_tasks_def Let_def case_prod_beta)
qed

lemma save_extracted_tasks_single:
  "save_extracted_tasks e [raw] s =
     (1, \<lparr>tasks_file =
            (case index_by_id (tasks_file s) (get (stamped e raw (clock s)) ''id'') of
               Some i \<Rightarrow> (tasks_file s)[i := stamped e raw (clock s)]
             | None \<Rightarrow> tasks_file s @ [stamped e raw (clock s)]),
          clock = clock_after e raw (clock s)\<rparr>)"
  by (simp add: save_extracted_tasks_def save_loop_Cons Let_def del: save_loop.simps(2))

lemma list_all_update: "list_all P xs \<Longrightarrow> P y \<Longrightarrow> list_all P (xs[i := y])"
  using set_update_subset_insert [of xs i y] by (auto simp: list_all_iff)

lemma list_all_nth: "list_all P xs \<Longrightarrow> i < length xs \<Longrightarrow> P (xs ! i)"
  by (simp add: list_all_iff)

section \<open>The completion invariant\<close>

lemma stamped_status:
  "get (stamped e raw n) ''status'' = (case raw ''status'' of None \<Rightarrow> JStr ''todo'' | Some v \<Rightarrow> v)"
  by (simp add: stamped_get normalize_status)

lemma stamped_completed_inv: "completed_inv (stamped e raw n) \<longleftrightarrow> completed_inv raw"
proof -
  have c: "get (stamped e raw n) ''completed_at'' = get raw ''completed_at''"
    by (simp add: stamped_get normalize_completed_at)
  have "get (stamped e raw n) ''status'' = JStr ''done'' \<longleftrightarrow> get raw ''status'' = JStr ''done''"
    unfolding stamped_status by (cases "raw ''status''") (simp_all add: get_def get_default_def)
  with c show ?thesis by (simp add: completed_inv_def)
qed

lemma update_task_status_result_inv:
  assumes "fst (update_task_status e task_id status s) = Inr t"
  shows "completed_inv t \<and> status_ok t"
proof -
  from assms have a: "status \<in> allowed"
    by (auto simp: update_task_status_def split: if_splits)
  with assms obtain i where i: "first_index (has_id task_id) (tasks_file s) = Some i"
    by (cases "first_index (has_id task_id) (tasks_file s)") (auto simp: update_task_status_missing)
  from assms have t: "t = (tasks_file s ! i)(''status'' \<mapsto> JStr status,
                       ''updated_at'' \<mapsto> JStr (now_iso e (clock s)),
                       ''completed_at'' \<mapsto> (if status = ''done'' then JStr (now_iso e (clock s + 1)) else JNull))"
    by (simp add: update_task_status_found [OF a i] Let_def)
  have "completed_inv t"
    by (cases "status = ''done''") (simp_all add: t completed_inv_def)
  moreover have "status_ok t" using a by (simp add: t status_ok_def)
  ultimately show ?thesis ..
qed

lemma update_task_status_preserves:
  assumes "list_all P (tasks_file s)"
      and "\<And>t. fst (update_task_status e task_id status s) = Inr t \<Longrightarrow> P t"
  shows "list_all P (tasks_file (snd (update_task_status e task_id status s)))"
proof (cases "fst (update_task_status e task_id status s)")
  case (Inl err)
  then show ?thesis using assms(1) by (simp add: update_task_status_error_unchanged)
next
  case (Inr t)
  then have a: "status \<in> allowed"
    by (auto simp: update_task_status_def split: if_splits)
  with Inr obtain i where i: "first_index (has_id task_id) (tasks_file s) = Some i"
    by (cases "first_index (has_id task_id) (tasks_file s)") (auto simp: update_task_status_missing)
  have "tasks_file (snd (update_task_status e task_id status s)) = (tasks_file s)[i := t]"
    using Inr by (auto simp: update_task_status_found [OF a i] Let_def)
  with assms(1) assms(2) [OF Inr] show ?thesis by (simp add: list_all_update)
qed

lemma reschedule_task_preserves:
  assumes "list_all P (tasks_file s)"
      and "\<And>t v w u. P t \<Longrightarrow> P (t(''due_date'' \<mapsto> v, ''due_time'' \<mapsto> w, ''updated_at'' \<mapsto> u))"
  shows "list_all P (tasks_file (snd (reschedule_task e task_id due_date due_time s)))"
proof (cases "first_index (has_id task_id) (tasks_file s)")
  case None
  then show ?thesis using assms(1) by (simp add: reschedule_task_missing)
next
  case (Some i)
  then have "i < length (tasks_file s)" by (simp add: first_index_Some_iff)
  with assms(1) have "P (tasks_file s ! i)" by (rule list_all_nth)
  then show ?thesis
    using assms by (simp add: reschedule_task_found [OF Some] Let_def list_all_update)
qed

lemma hard_delete_preserves:
  assumes "list_all P (tasks_file s)"
  shows "list_all P (tasks_file (snd (delete_task e task_id False s)))"
proof (cases "\<exists>t\<in>set (tasks_file s). has_id task_id t")
  case True
  then show ?thesis using assms by (auto simp: hard_delete_found list_all_iff)
next
  case False
  then show ?thesis using assms by (simp add: hard_delete_missing)
qed

lemma soft_delete_preserves:
  assumes "list_all P (tasks_file s)"
      and "\<And>t v u. P t \<Longrightarrow> P (t(''status'' \<mapsto> JStr ''archived'', ''updated_at'' \<mapsto> u))"
  shows "list_all P (tasks_file (snd (delete_task e task_id True s)))"
proof (cases "first_index (has_id task_id) (tasks_file s)")
  case None
  then show ?thesis using assms(1) by (simp add: soft_delete_missing)
next
  case (Some i)
  then have "i < length (tasks_file s)" by (simp add: first_index_Some_iff)
  with assms(1) have "P (tasks_file s ! i)" by (rule list_all_nth)
  then show ?thesis
    using assms by (simp add: soft_delete_found [OF Some] list_all_update)
qed

text \<open>
  Claim C1, as amended. The record that \<open>update_task_status\<close> returns has a non-null
  \<open>completed_at\<close> exactly when its status is \<^verbatim>\<open>done\<close>. In a store where every record has this
  property, every record still has it after \<open>update_task_status\<close>, \<open>reschedule_task\<close> and hard
  delete. \<open>save_extracted_tasks\<close> stores \<open>status\<close> and \<open>completed_at\<close> as the payload gives
  them: the stored record has the property exactly when the payload has it, so a batch of
  payloads that have it keeps it for the store.
\<close>

theorem C1_completion_invariant_amended:
  "(\<forall>t. fst (update_task_status e task_id status s) = Inr t \<longrightarrow> completed_inv t) \<and>
   (list_all completed_inv (tasks_file s) \<longrightarrow>
      list_all completed_inv (tasks_file (snd (update_task_status e task_id status s))) \<and>
      list_all completed_inv (tasks_file (snd (reschedule_task e task_id due_date due_time s))) \<and>
      list_all completed_inv (tasks_file (snd (delete_task e task_id False s)))) \<and>
   (\<forall>raw n. completed_inv (stamped e raw n) = completed_inv raw) \<and>
   (list_all completed_inv (tasks_file s) \<and> list_all completed_inv tasks \<longrightarrow>
      list_all completed_inv (tasks_file (snd (save_extracted_tasks e tasks s))))"
proof (intro conjI allI impI)
  fix t assume "fst (update_task_status e task_id status s) = Inr t"
  then show "completed_inv t" by (simp add: update_task_status_result_inv)
next
  assume a: "list_all completed_inv (tasks_file s)"
  show "list_all completed_inv (tasks_file (snd (update_task_status e task_id status s)))"
    using a by (rule update_task_status_preserves) (simp add: update_task_status_result_inv)
  show "list_all completed_inv (tasks_file (snd (reschedule_task e task_id due_date due_time s)))"
    using a by (rule reschedule_task_preserves) (simp add: completed_inv_def)
  show "list_all completed_inv (tasks_file (snd (delete_task e task_id False s)))"
    using a by (rule hard_delete_preserves)
next
  fix raw n show "completed_inv (stamped e raw n) = completed_inv raw"
    by (rule stamped_completed_inv)
next
  assume "list_all completed_inv (tasks_file s) \<and> list_all completed_inv tasks"
  then show "list_all completed_inv (tasks_file (snd (save_extracted_tasks e tasks s)))"
    by (intro save_extracted_tasks_preserves) (simp_all add: stamped_completed_inv list_all_iff)
qed

theorem C1_completion_invariant_witness:
  "fst (update_task_status sample_env ''b'' ''done'' sample_store) \<noteq> Inl KeyError \<and>
   fst (update_task_status sample_env ''b'' ''done'' sample_store) \<noteq> Inl ValueError \<and>
   list_all completed_inv (tasks_file sample_store) \<and>
   list_all completed_inv (tasks_file (snd (update_task_status sample_env ''b'' ''done'' sample_store))) \<and>
   list_all completed_inv (tasks_file (snd (reschedule_task sample_env ''b'' ''2024-03-01'' None sample_store))) \<and>
   list_all completed_inv (tasks_file (snd (delete_task sample_env ''b'' False sample_store))) \<and>
   list_all completed_inv [task_c] \<and>
   list_all completed_inv (tasks_file (snd (save_extracted_tasks sample_env [task_c] sample_store)))"
proof -
  have h: "list_all completed_inv (tasks_file sample_store)"
    by (simp add: sample_store_def task_a_def task_b_def task_c_def task_d_def completed_inv_def)
  have h2: "list_all completed_inv [task_c]"
    by (simp add: task_c_def completed_inv_def)
  have ok: "fst (update_task_status sample_env ''b'' ''done'' sample_store) \<noteq> Inl KeyError"
           "fst (update_task_status sample_env ''b'' ''done'' sample_store) \<noteq> Inl ValueError"
    by (simp_all add: update_task_status_error_iff allowed_def sample_store_def task_b_def has_id_def)
  from C1_completion_invariant_amended [of sample_env "''b''" "''done''" sample_store "''2024-03-01''" None "[task_c]"]
  show ?thesis using h h2 ok by blast
qed

text \<open>
  The claim as stated fails on two paths. An upsert of a payload whose status is \<^verbatim>\<open>done\<close> and
  that has no \<^verbatim>\<open>completed_at\<close> stores a done record with a null \<^verbatim>\<open>completed_at\<close>; a soft delete
  of a done record stores an archived record with its old, non-null \<^verbatim>\<open>completed_at\<close>.
\<close>

theorem C1_upsert_and_soft_delete_counterexample:
  "get (tasks_file (snd (save_extracted_tasks sample_env
          [[''id'' \<mapsto> JStr ''x'', ''status'' \<mapsto> JStr ''done'']] empty_store)) ! 0) ''status'' = JStr ''done'' \<and>
   get (tasks_file (snd (save_extracted_tasks sample_env
          [[''id'' \<mapsto> JStr ''x'', ''status'' \<mapsto> JStr ''done'']] empty_store)) ! 0) ''completed_at'' = JNull \<and>
   \<not> list_all completed_inv (tasks_file (snd (save_extracted_tasks sample_env
          [[''id'' \<mapsto> JStr ''x'', ''status'' \<mapsto> JStr ''done'']] empty_store))) \<and>
   list_all completed_inv (tasks_file sample_store) \<and>
   get (tasks_file (snd (delete_task sample_env ''a'' True sample_store)) ! 0) ''status'' = JStr ''archived'' \<and>
   get (tasks_file (snd (delete_task sample_env ''a'' True sample_store)) ! 0) ''completed_at''
     = JStr ''2023-12-31T08:00:00'' \<and>
   \<not> list_all completed_inv (tasks_file (snd (delete_task sample_env ''a'' True sample_store)))"
proof -
  let ?p = "[''id'' \<mapsto> JStr ''x'', ''status'' \<mapsto> JStr ''done'']"
  have up: "tasks_file (snd (save_extracted_tasks sample_env [?p] empty_store)) = [stamped sample_env ?p 0]"
    by (simp add: save_extracted_tasks_single empty_store_def index_by_id_def)
  have st: "get (stamped sample_env ?p 0) ''status'' = JStr ''done''"
    by (simp add: stamped_status)
  have "get ?p ''completed_at'' = JNull"
    by (simp add: get_def get_default_def)
  then have co: "get (stamped sample_env ?p 0) ''completed_at'' = JNull"
    by (simp add: stamped_get normalize_completed_at)
  have del: "tasks_file (snd (delete_task sample_env ''a'' True sample_store)) =
               [task_a(''status'' \<mapsto> JStr ''archived'', ''updated_at'' \<mapsto> JStr (now_iso sample_env 0)),
                task_b, task_c, task_d]"
    by (simp add: delete_task_def sample_store_def has_id_def task_a_def Let_def)
  have a: "get task_a ''completed_at'' = JStr ''2023-12-31T08:00:00''"
    by (simp add: task_a_def get_def get_default_def)
  have inv: "list_all completed_inv (tasks_file sample_store)"
    by (simp add: sample_store_def task_a_def task_b_def task_c_def task_d_def completed_inv_def
          get_def get_default_def)
  show ?thesis
    unfolding up del using st co a inv by (simp add: completed_inv_def)
qed

section \<open>The status values that are stored\<close>

lemma stamped_status_ok:
  "status_ok (stamped e raw n) \<longleftrightarrow> (case raw ''status'' of None \<Rightarrow> True | Some v \<Rightarrow> v \<in> JStr ` allowed)"
  unfolding status_ok_def stamped_status
  by (cases "raw ''status''") (simp_all add: allowed_def)

section \<open>Ids that repeat\<close>

lemma stamped_id:
  "get (stamped e raw n) ''id'' =
     (case raw ''id'' of
        None \<Rightarrow> JStr (''task-'' @ str_nat (nat \<bar>hash e (get_default raw ''canonical_text'' (JStr '''')) (now_iso e n)\<bar>))
      | Some v \<Rightarrow> v)"
  by (simp add: stamped_get normalize_id)

text \<open>
  Claim C3 fails on the code. The index of ids is built once, before the loop, and is not
  extended when a record is appended: a batch that carries a new id twice appends two records
  with that id.
\<close>

theorem C3_repeated_id_in_batch:
  "ids empty_store = [] \<and>
   fst (save_extracted_tasks sample_env [[''id'' \<mapsto> JStr ''x''], [''id'' \<mapsto> JStr ''x'']] empty_store) = 2 \<and>
   ids (snd (save_extracted_tasks sample_env [[''id'' \<mapsto> JStr ''x''], [''id'' \<mapsto> JStr ''x'']] empty_store))
     = [JStr ''x'', JStr ''x''] \<and>
   \<not> distinct (ids (snd (save_extracted_tasks sample_env
                     [[''id'' \<mapsto> JStr ''x''], [''id'' \<mapsto> JStr ''x'']] empty_store)))"
proof -
  let ?p = "[''id'' \<mapsto> JStr ''x'']"
  have "save_extracted_tasks sample_env [?p, ?p] empty_store =
          (2, \<lparr>tasks_file = [stamped sample_env ?p 0, stamped sample_env ?p (clock_after sample_env ?p 0)],
                clock = clock_after sample_env ?p (clock_after sample_env ?p 0)\<rparr>)"
    by (simp add: save_extracted_tasks_def save_loop_Cons empty_store_def index_by_id_def Let_def
          del: save_loop.simps(2))
  then show ?thesis
    by (simp add: ids_def stamped_id empty_store_def)
qed

section \<open>The index of ids\<close>

lemma index_from_append:
  "index_from b (ts @ us) d = index_from (b + length ts) us (index_from b ts d)"
  by (induction ts arbitrary: b d) simp_all

lemma index_by_id_snoc:
  "index_by_id (ts @ [t]) k =
     (if truthy (get t ''id'') \<and> py_eq k (get t ''id'') then Some (length ts) else index_by_id ts k)"
  by (simp add: index_by_id_def index_from_append)

lemma index_by_id_Some_iff:
  "index_by_id rows k = Some i \<longleftrightarrow>
     i < length rows \<and> truthy (get (rows ! i) ''id'') \<and> py_eq k (get (rows ! i) ''id'') \<and>
     (\<forall>j. i < j \<and> j < length rows \<longrightarrow> \<not> (truthy (get (rows ! j) ''id'') \<and> py_eq k (get (rows ! j) ''id'')))"
proof (induction rows arbitrary: i rule: rev_induct)
  case Nil
  then show ?case by (simp add: index_by_id_def)
next
  case (snoc t ts)
  let ?m = "\<lambda>r. truthy (get r ''id'') \<and> py_eq k (get r ''id'')"
  show ?case
  proof (cases "?m t")
    case True
    have "(i < length (ts @ [t]) \<and> ?m ((ts @ [t]) ! i) \<and>
            (\<forall>j. i < j \<and> j < length (ts @ [t]) \<longrightarrow> \<not> ?m ((ts @ [t]) ! j))) \<longleftrightarrow> i = length ts"
    proof
      assume a: "i < length (ts @ [t]) \<and> ?m ((ts @ [t]) ! i) \<and>
            (\<forall>j. i < j \<and> j < length (ts @ [t]) \<longrightarrow> \<not> ?m ((ts @ [t]) ! j))"
      show "i = length ts"
      proof (rule ccontr)
        assume "i \<noteq> length ts"
        with a have b: "i < length ts" by simp
        from a have q: "\<And>j. i < j \<Longrightarrow> j < length (ts @ [t]) \<Longrightarrow> \<not> ?m ((ts @ [t]) ! j)"
          by blast
        from q [of "length ts"] b have "\<not> ?m ((ts @ [t]) ! length ts)" by simp
        with True show False by simp
      qed
    next
      assume "i = length ts"
      with True show "i < length (ts @ [t]) \<and> ?m ((ts @ [t]) ! i) \<and>
            (\<forall>j. i < j \<and> j < length (ts @ [t]) \<longrightarrow> \<not> ?m ((ts @ [t]) ! j))"
        by auto
    qed
    with True show ?thesis by (auto simp: index_by_id_snoc)
  next
    case False
    have "(i < length (ts @ [t]) \<and> ?m ((ts @ [t]) ! i) \<and>
            (\<forall>j. i < j \<and> j < length (ts @ [t]) \<longrightarrow> \<not> ?m ((ts @ [t]) ! j))) \<longleftrightarrow>
          (i < length ts \<and> ?m (ts ! i) \<and> (\<forall>j. i < j \<and> j < length ts \<longrightarrow> \<not> ?m (ts ! j)))"
      (is "?L \<longleftrightarrow> ?R")
    proof
      assume l: ?L
      then have "i \<noteq> length ts" using False by auto
      with l have b: "i < length ts" by simp
      with l have "?m (ts ! i)" by (simp add: nth_append)
      moreover have "\<forall>j. i < j \<and> j < length ts \<longrightarrow> \<not> ?m (ts ! j)"
      proof (intro allI impI)
        fix j assume j: "i < j \<and> j < length ts"
        from l have "\<And>j. i < j \<Longrightarrow> j < length (ts @ [t]) \<Longrightarrow> \<not> ?m ((ts @ [t]) ! j)"
          by blast
        from this [of j] j have "\<not> ?m ((ts @ [t]) ! j)" by simp
        with j show "\<not> ?m (ts ! j)" by (simp add: nth_append)
      qed
      ultimately show ?R using b by simp
    next
      assume r: ?R
      have "\<forall>j. i < j \<and> j < length (ts @ [t]) \<longrightarrow> \<not> ?m ((ts @ [t]) ! j)"
      proof (intro allI impI)
        fix j assume j: "i < j \<and> j < length (ts @ [t])"
        show "\<not> ?m ((ts @ [t]) ! j)"
        proof (cases "j = length ts")
          case True
          with False show ?thesis by simp
        next
          case False
          with j have "j < length ts" by simp
          with r j show ?thesis by (simp add: nth_append)
        qed
      qed
      with r show ?L by (simp add: nth_append)
    qed
    moreover have "index_by_id (ts @ [t]) k = index_by_id ts k"
      using False by (auto simp: index_by_id_snoc)
    ultimately show ?thesis using snoc.IH [of i] by (simp only: conj_assoc)
  qed
qed

lemma index_by_id_None_iff:
  "index_by_id rows k = None \<longleftrightarrow>
     (\<forall>t\<in>set rows. \<not> (truthy (get t ''id'') \<and> py_eq k (get t ''id'')))"
proof (induction rows rule: rev_induct)
  case Nil
  then show ?case by (simp add: index_by_id_def)
next
  case (snoc t ts)
  then show ?case by (auto simp: index_by_id_snoc)
qed


section \<open>What an upsert keeps and what it stores\<close>

lemma py_eq_refl [simp]: "py_eq a a"
  by (cases a) simp_all

lemma py_eq_sym: "py_eq a b \<Longrightarrow> py_eq b a"
  by (cases a; cases b) (auto split: if_splits)

lemma py_eq_trans: "py_eq a b \<Longrightarrow> py_eq b c \<Longrightarrow> py_eq a c"
  by (cases a; cases b; cases c) (auto split: if_splits)

lemma index_by_id_bound: "index_by_id rows k = Some i \<Longrightarrow> i < length rows"
  by (simp add: index_by_id_Some_iff)

text \<open>Normalizing a payload reads the clock at least twice; the loop reads it once more.\<close>

lemma normalize_clock: "n + 2 \<le> snd (normalize_task_record e raw n)"
  by (simp add: normalize_task_record_def Let_def case_prod_beta)

lemma clock_after_gt: "n + 2 < clock_after e raw n"
  using normalize_clock [of n e raw] by (simp add: clock_after_def)

lemma save_loop_clock: "n \<le> fst (snd (save_loop e idx raws (existing, n, w)))"
proof (induction raws arbitrary: existing n w)
  case Nil
  then show ?case by simp
next
  case (Cons raw raws)
  let ?rec = "stamped e raw n"
  let ?next = "case idx (get ?rec ''id'') of Some j \<Rightarrow> existing[j := ?rec] | None \<Rightarrow> existing @ [?rec]"
  have "clock_after e raw n \<le> fst (snd (save_loop e idx raws (?next, clock_after e raw n, w + 1)))"
    by (rule Cons.IH)
  with clock_after_gt [of n e raw]
  have "n \<le> fst (snd (save_loop e idx raws (?next, clock_after e raw n, w + 1)))" by simp
  then show ?case by (simp only: save_loop_Cons)
qed

text \<open>
  Every position of the list that the loop starts from holds, after the loop, either the
  record it held or the record of a payload whose id the index maps to that position,
  normalized at a clock reading of this loop; the list does not get shorter.
\<close>

lemma save_loop_nth_clock:
  assumes "i < length existing"
  shows "length existing \<le> length (fst (save_loop e idx raws (existing, n, w))) \<and>
         (fst (save_loop e idx raws (existing, n, w)) ! i = existing ! i \<or>
          (\<exists>raw\<in>set raws. \<exists>m. n \<le> m \<and> m + 1 < fst (snd (save_loop e idx raws (existing, n, w))) \<and>
                                fst (save_loop e idx raws (existing, n, w)) ! i = stamped e raw m \<and>
                                idx (get (stamped e raw m) ''id'') = Some i))"
  using assms
proof (induction raws arbitrary: existing n w)
  case Nil
  then show ?case by simp
next
  case (Cons raw raws)
  let ?rec = "stamped e raw n"
  let ?next = "case idx (get ?rec ''id'') of Some j \<Rightarrow> existing[j := ?rec] | None \<Rightarrow> existing @ [?rec]"
  let ?R = "save_loop e idx raws (?next, clock_after e raw n, w + 1)"
  let ?r = "fst ?R"
  let ?c = "fst (snd ?R)"
  have r: "save_loop e idx (raw # raws) (existing, n, w) = ?R"
    by (simp only: save_loop_Cons)
  have c: "clock_after e raw n \<le> ?c" by (rule save_loop_clock)
  have g: "n + 2 < clock_after e raw n" by (rule clock_after_gt)
  have len: "length existing \<le> length ?next"
    by (cases "idx (get ?rec ''id'')") simp_all
  with Cons.prems have i: "i < length ?next" by simp
  have step: "?next ! i = existing ! i \<or> (?next ! i = ?rec \<and> idx (get ?rec ''id'') = Some i)"
  proof (cases "idx (get ?rec ''id'')")
    case None
    with Cons.prems show ?thesis by (simp add: nth_append)
  next
    case (Some j)
    with Cons.prems show ?thesis by (cases "j = i") simp_all
  qed
  from Cons.IH [OF i, where n = "clock_after e raw n" and w = "w + 1"]
  have ih: "length ?next \<le> length ?r"
    "?r ! i = ?next ! i \<or> (\<exists>raw'\<in>set raws. \<exists>m. clock_after e raw n \<le> m \<and> m + 1 < ?c \<and>
                                  ?r ! i = stamped e raw' m \<and>
                                  idx (get (stamped e raw' m) ''id'') = Some i)"
    by blast+
  from len ih(1) have "length existing \<le> length ?r" by simp
  moreover have "?r ! i = existing ! i \<or>
      (\<exists>raw'\<in>set (raw # raws). \<exists>m. n \<le> m \<and> m + 1 < ?c \<and> ?r ! i = stamped e raw' m \<and>
                                     idx (get (stamped e raw' m) ''id'') = Some i)"
  proof -
    from ih(2) show ?thesis
    proof
      assume a: "?r ! i = ?next ! i"
      from step show ?thesis
      proof
        assume "?next ! i = existing ! i"
        with a show ?thesis by simp
      next
        assume b: "?next ! i = ?rec \<and> idx (get ?rec ''id'') = Some i"
        from a b [THEN conjunct1] have "?r ! i = stamped e raw n" by (rule trans)
        moreover from b have "idx (get (stamped e raw n) ''id'') = Some i" by (rule conjunct2)
        moreover from c g have "n \<le> n \<and> n + 1 < ?c" by simp
        ultimately have "\<exists>m. n \<le> m \<and> m + 1 < ?c \<and> ?r ! i = stamped e raw m \<and>
                                     idx (get (stamped e raw m) ''id'') = Some i" by blast
        then show ?thesis by (simp only: list.set bex_simps) blast
      qed
    next
      assume "\<exists>raw'\<in>set raws. \<exists>m. clock_after e raw n \<le> m \<and> m + 1 < ?c \<and> ?r ! i = stamped e raw' m \<and>
                  idx (get (stamped e raw' m) ''id'') = Some i"
      then obtain raw' m where "raw' \<in> set raws" "clock_after e raw n \<le> m" "m + 1 < ?c"
        "?r ! i = stamped e raw' m" "idx (get (stamped e raw' m) ''id'') = Some i" by blast
      moreover with g have "n \<le> m" by simp
      ultimately have "\<exists>raw'\<in>set raws. \<exists>m. n \<le> m \<and> m + 1 < ?c \<and> ?r ! i = stamped e raw' m \<and>
                  idx (get (stamped e raw' m) ''id'') = Some i" by blast
      then show ?thesis by (simp only: list.set bex_simps) blast
    qed
  qed
  ultimately show ?case unfolding r by blast
qed

lemma save_loop_nth:
  assumes "i < length existing"
  shows "length existing \<le> length (fst (save_loop e idx raws (existing, n, w))) \<and>
         (fst (save_loop e idx raws (existing, n, w)) ! i = existing ! i \<or>
          (\<exists>raw\<in>set raws. \<exists>m. fst (save_loop e idx raws (existing, n, w)) ! i = stamped e raw m \<and>
                                idx (get (stamped e raw m) ''id'') = Some i))"
  using save_loop_nth_clock [OF assms, where e = e and idx = idx and raws = raws and n = n and w = w]
  by blast

text \<open>
  Every payload of the batch leaves a record after the loop: its own, or, where the index
  maps its id to a position, the record of a payload whose id the index maps to that position.
\<close>

lemma save_loop_stored:
  assumes "\<forall>k j. idx k = Some j \<longrightarrow> j < length existing"
  shows "\<forall>raw\<in>set raws. \<exists>m. \<exists>t\<in>set (fst (save_loop e idx raws (existing, n, w))).
           t = stamped e raw m \<or>
           (\<exists>j. idx (get (stamped e raw m) ''id'') = Some j \<and> idx (get t ''id'') = Some j)"
  using assms
proof (induction raws arbitrary: existing n w)
  case Nil
  then show ?case by simp
next
  case (Cons raw raws)
  let ?rec = "stamped e raw n"
  let ?next = "case idx (get ?rec ''id'') of Some j \<Rightarrow> existing[j := ?rec] | None \<Rightarrow> existing @ [?rec]"
  let ?r = "fst (save_loop e idx raws (?next, clock_after e raw n, w + 1))"
  have r: "fst (save_loop e idx (raw # raws) (existing, n, w)) = ?r"
    by (simp only: save_loop_Cons)
  have len: "length existing \<le> length ?next"
    by (cases "idx (get ?rec ''id'')") simp_all
  with Cons.prems have range: "\<forall>k j. idx k = Some j \<longrightarrow> j < length ?next"
    by (meson less_le_trans)
  have tail: "\<forall>raw'\<in>set raws. \<exists>m. \<exists>t\<in>set ?r.
           t = stamped e raw' m \<or>
           (\<exists>j. idx (get (stamped e raw' m) ''id'') = Some j \<and> idx (get t ''id'') = Some j)"
    using range by (rule Cons.IH)
  have head: "\<exists>t\<in>set ?r. t = ?rec \<or> (\<exists>j. idx (get ?rec ''id'') = Some j \<and> idx (get t ''id'') = Some j)"
  proof (cases "idx (get ?rec ''id'')")
    case None
    let ?p = "length existing"
    have p: "?p < length ?next" and np: "?next ! ?p = ?rec" using None by simp_all
    from save_loop_nth [OF p, where e = e and idx = idx and raws = raws and n = "clock_after e raw n" and w = "w + 1"]
    have l: "length ?next \<le> length ?r"
      and d: "?r ! ?p = ?next ! ?p \<or> (\<exists>raw'\<in>set raws. \<exists>m. ?r ! ?p = stamped e raw' m \<and>
                                  idx (get (stamped e raw' m) ''id'') = Some ?p)"
      by blast+
    from Cons.prems have "\<not> (\<exists>k. idx k = Some ?p)" by auto
    with d have "?r ! ?p = ?next ! ?p" by blast
    with np have "?r ! ?p = ?rec" by simp
    moreover from p l have "?p < length ?r" by simp
    ultimately have "?rec \<in> set ?r" by (metis nth_mem)
    then show ?thesis by blast
  next
    case (Some j)
    with Cons.prems have j: "j < length existing" by blast
    with Some have p: "j < length ?next" and np: "?next ! j = ?rec" by simp_all
    from save_loop_nth [OF p, where e = e and idx = idx and raws = raws and n = "clock_after e raw n" and w = "w + 1"]
    have l: "length ?next \<le> length ?r"
      and d: "?r ! j = ?next ! j \<or> (\<exists>raw'\<in>set raws. \<exists>m. ?r ! j = stamped e raw' m \<and>
                                  idx (get (stamped e raw' m) ''id'') = Some j)"
      by blast+
    from p l have m: "?r ! j \<in> set ?r" by simp
    from d show ?thesis
    proof
      assume "?r ! j = ?next ! j"
      with np m show ?thesis by auto
    next
      assume "\<exists>raw'\<in>set raws. \<exists>m. ?r ! j = stamped e raw' m \<and> idx (get (stamped e raw' m) ''id'') = Some j"
      then have "idx (get (?r ! j) ''id'') = Some j" by auto
      with Some m show ?thesis by blast
    qed
  qed
  show ?case unfolding r
  proof
    fix raw' assume "raw' \<in> set (raw # raws)"
    then consider "raw' = raw" | "raw' \<in> set raws" by auto
    then show "\<exists>m. \<exists>t\<in>set ?r. t = stamped e raw' m \<or>
           (\<exists>j. idx (get (stamped e raw' m) ''id'') = Some j \<and> idx (get t ''id'') = Some j)"
    proof cases
      case 1
      with head show ?thesis by blast
    next
      case 2
      with tail show ?thesis by blast
    qed
  qed
qed

text \<open>The record of the last payload of a batch is in the list after the loop.\<close>

lemma save_loop_last:
  assumes "\<forall>k j. idx k = Some j \<longrightarrow> j < length existing" and "raws \<noteq> []"
  shows "\<exists>m. stamped e (last raws) m \<in> set (fst (save_loop e idx raws (existing, n, w)))"
  using assms
proof (induction raws arbitrary: existing n w)
  case Nil
  then show ?case by simp
next
  case (Cons raw raws)
  let ?rec = "stamped e raw n"
  let ?next = "case idx (get ?rec ''id'') of Some j \<Rightarrow> existing[j := ?rec] | None \<Rightarrow> existing @ [?rec]"
  let ?r = "fst (save_loop e idx raws (?next, clock_after e raw n, w + 1))"
  have r: "fst (save_loop e idx (raw # raws) (existing, n, w)) = ?r"
    by (simp only: save_loop_Cons)
  have len: "length existing \<le> length ?next"
    by (cases "idx (get ?rec ''id'')") simp_all
  with Cons.prems(1) have range: "\<forall>k j. idx k = Some j \<longrightarrow> j < length ?next"
    by (meson less_le_trans)
  show ?case
  proof (cases "raws = []")
    case False
    from Cons.IH [OF range False, where n = "clock_after e raw n" and w = "w + 1"] False
    show ?thesis unfolding r by simp
  next
    case True
    have "?rec \<in> set ?next"
    proof (cases "idx (get ?rec ''id'')")
      case None
      then show ?thesis by simp
    next
      case (Some j)
      with Cons.prems(1) have "j < length existing" by blast
      with Some show ?thesis by (simp add: set_update_memI)
    qed
    with True show ?thesis unfolding r by auto
  qed
qed

text \<open>The same for the method, whose index is the one of the loaded collection.\<close>

lemma save_extracted_tasks_rows:
  "tasks \<noteq> [] \<Longrightarrow>
   tasks_file (snd (save_extracted_tasks e tasks s)) =
     fst (save_loop e (index_by_id (tasks_file s)) tasks (tasks_file s, clock s, 0))"
  by (simp add: save_extracted_tasks_def Let_def case_prod_beta)

lemma save_extracted_tasks_clock:
  "tasks \<noteq> [] \<Longrightarrow>
   clock (snd (save_extracted_tasks e tasks s)) =
     fst (snd (save_loop e (index_by_id (tasks_file s)) tasks (tasks_file s, clock s, 0)))"
  by (simp add: save_extracted_tasks_def Let_def case_prod_beta)

lemma upsert_keeps_records:
  assumes "i < length (tasks_file s)"
  shows "length (tasks_file s) \<le> length (tasks_file (snd (save_extracted_tasks e tasks s))) \<and>
         (tasks_file (snd (save_extracted_tasks e tasks s)) ! i = tasks_file s ! i \<or>
          (\<exists>raw\<in>set tasks. \<exists>m.
             clock s \<le> m \<and> m + 1 < clock (snd (save_extracted_tasks e tasks s)) \<and>
             tasks_file (snd (save_extracted_tasks e tasks s)) ! i = stamped e raw m \<and>
             truthy (get (tasks_file s ! i) ''id'') \<and>
             py_eq (get (stamped e raw m) ''id'') (get (tasks_file s ! i) ''id'')))"
proof (cases "tasks = []")
  case True
  then show ?thesis by (simp add: save_extracted_tasks_def)
next
  case False
  from save_loop_nth_clock [OF assms, where e = e and idx = "index_by_id (tasks_file s)" and raws = tasks and n = "clock s" and w = 0]
  show ?thesis
    unfolding save_extracted_tasks_rows [OF False] save_extracted_tasks_clock [OF False]
      index_by_id_Some_iff by blast
qed

lemma upsert_stores_payloads:
  "\<forall>raw\<in>set tasks. \<exists>m. \<exists>t\<in>set (tasks_file (snd (save_extracted_tasks e tasks s))).
     py_eq (get t ''id'') (get (stamped e raw m) ''id'')"
proof (cases "tasks = []")
  case True
  then show ?thesis by simp
next
  case False
  let ?idx = "index_by_id (tasks_file s)"
  let ?r = "fst (save_loop e ?idx tasks (tasks_file s, clock s, 0))"
  have "\<forall>k j. ?idx k = Some j \<longrightarrow> j < length (tasks_file s)"
    by (simp add: index_by_id_bound)
  from save_loop_stored [OF this, where e = e and raws = tasks and n = "clock s" and w = 0]
  have st: "\<forall>raw\<in>set tasks. \<exists>m. \<exists>t\<in>set ?r.
           t = stamped e raw m \<or>
           (\<exists>j. ?idx (get (stamped e raw m) ''id'') = Some j \<and> ?idx (get t ''id'') = Some j)" .
  have "\<forall>raw\<in>set tasks. \<exists>m. \<exists>t\<in>set ?r. py_eq (get t ''id'') (get (stamped e raw m) ''id'')"
  proof
    fix raw assume "raw \<in> set tasks"
    with st obtain m t where t: "t \<in> set ?r"
      and d: "t = stamped e raw m \<or>
           (\<exists>j. ?idx (get (stamped e raw m) ''id'') = Some j \<and> ?idx (get t ''id'') = Some j)"
      by blast
    from d have "py_eq (get t ''id'') (get (stamped e raw m) ''id'')"
    proof
      assume "t = stamped e raw m"
      then show ?thesis by simp
    next
      assume "\<exists>j. ?idx (get (stamped e raw m) ''id'') = Some j \<and> ?idx (get t ''id'') = Some j"
      then obtain j where "py_eq (get (stamped e raw m) ''id'') (get (tasks_file s ! j) ''id'')"
        and "py_eq (get t ''id'') (get (tasks_file s ! j) ''id'')"
        unfolding index_by_id_Some_iff by blast
      then show ?thesis by (blast intro: py_eq_sym py_eq_trans)
    qed
    with t show "\<exists>m. \<exists>t\<in>set ?r. py_eq (get t ''id'') (get (stamped e raw m) ''id'')" by blast
  qed
  then show ?thesis unfolding save_extracted_tasks_rows [OF False] .
qed

lemma upsert_stores_last:
  assumes "tasks \<noteq> []"
  shows "\<exists>m. stamped e (last tasks) m \<in> set (tasks_file (snd (save_extracted_tasks e tasks s)))"
proof -
  have "\<forall>k j. index_by_id (tasks_file s) k = Some j \<longrightarrow> j < length (tasks_file s)"
    by (simp add: index_by_id_bound)
  from save_loop_last [OF this assms, where e = e and n = "clock s" and w = 0]
  show ?thesis unfolding save_extracted_tasks_rows [OF assms] .
qed

section \<open>The status values that an upsert stores\<close>

lemma upsert_records_origin:
  "\<forall>t\<in>set (tasks_file (snd (save_extracted_tasks e tasks s))).
     t \<in> set (tasks_file s) \<or> (\<exists>raw\<in>set tasks. \<exists>m. t = stamped e raw m)"
proof -
  let ?P = "\<lambda>t. t \<in> set (tasks_file s) \<or> (\<exists>raw\<in>set tasks. \<exists>m. t = stamped e raw m)"
  have "list_all ?P (tasks_file s)" by (simp add: list_all_iff)
  moreover have "\<forall>raw\<in>set tasks. \<forall>m. ?P (stamped e raw m)" by blast
  ultimately have "list_all ?P (tasks_file (snd (save_extracted_tasks e tasks s)))"
    by (rule save_extracted_tasks_preserves)
  then show ?thesis by (simp only: list_all_iff)
qed

text \<open>
  Claim C2, as amended. The record that \<open>update_task_status\<close> returns has one of the four
  allowed statuses, and in a store where every status is allowed, every status is still
  allowed after \<open>update_task_status\<close>, \<open>reschedule_task\<close> and \<open>delete_task\<close>, soft or hard.
  \<open>save_extracted_tasks\<close> does not validate. The record it makes of a payload has the status
  of the payload as it is, and \<^verbatim>\<open>todo\<close> when the payload has no such key; after the call
  every stored record is a record stored before or the record made of a payload of the batch,
  and the record made of the last payload of a batch that is not empty is in the store. The
  statuses stay allowed when every payload of the batch has an allowed status or none.
\<close>

theorem C2_status_values_amended:
  "(\<forall>t. fst (update_task_status e task_id status s) = Inr t \<longrightarrow> status_ok t) \<and>
   (list_all status_ok (tasks_file s) \<longrightarrow>
      list_all status_ok (tasks_file (snd (update_task_status e task_id status s))) \<and>
      list_all status_ok (tasks_file (snd (reschedule_task e task_id due_date due_time s))) \<and>
      list_all status_ok (tasks_file (snd (delete_task e task_id soft s)))) \<and>
   (\<forall>raw n. get (stamped e raw n) ''status'' =
              (case raw ''status'' of None \<Rightarrow> JStr ''todo'' | Some v \<Rightarrow> v)) \<and>
   (list_all status_ok (tasks_file s) \<and>
    list_all (\<lambda>raw. case raw ''status'' of None \<Rightarrow> True | Some v \<Rightarrow> v \<in> JStr ` allowed) tasks \<longrightarrow>
      list_all status_ok (tasks_file (snd (save_extracted_tasks e tasks s)))) \<and>
   (\<forall>t\<in>set (tasks_file (snd (save_extracted_tasks e tasks s))).
      t \<in> set (tasks_file s) \<or> (\<exists>raw\<in>set tasks. \<exists>m. t = stamped e raw m)) \<and>
   (tasks \<noteq> [] \<longrightarrow>
      (\<exists>m. stamped e (last tasks) m \<in> set (tasks_file (snd (save_extracted_tasks e tasks s)))))"
proof (intro conjI allI impI)
  fix t assume "fst (update_task_status e task_id status s) = Inr t"
  then show "status_ok t" by (simp add: update_task_status_result_inv)
next
  assume a: "list_all status_ok (tasks_file s)"
  show "list_all status_ok (tasks_file (snd (update_task_status e task_id status s)))"
    using a by (rule update_task_status_preserves) (simp add: update_task_status_result_inv)
  show "list_all status_ok (tasks_file (snd (reschedule_task e task_id due_date due_time s)))"
    using a by (rule reschedule_task_preserves) (simp add: status_ok_def)
  show "list_all status_ok (tasks_file (snd (delete_task e task_id soft s)))"
  proof (cases soft)
    case True
    have "list_all status_ok (tasks_file (snd (delete_task e task_id True s)))"
      using a by (rule soft_delete_preserves) (simp add: status_ok_def allowed_def)
    with True show ?thesis by simp
  next
    case False
    with hard_delete_preserves [OF a] show ?thesis by simp
  qed
next
  fix raw n
  show "get (stamped e raw n) ''status'' = (case raw ''status'' of None \<Rightarrow> JStr ''todo'' | Some v \<Rightarrow> v)"
    by (rule stamped_status)
next
  assume "list_all status_ok (tasks_file s) \<and>
    list_all (\<lambda>raw. case raw ''status'' of None \<Rightarrow> True | Some v \<Rightarrow> v \<in> JStr ` allowed) tasks"
  then show "list_all status_ok (tasks_file (snd (save_extracted_tasks e tasks s)))"
    by (intro save_extracted_tasks_preserves) (simp_all add: stamped_status_ok list_all_iff)
next
  show "\<forall>t\<in>set (tasks_file (snd (save_extracted_tasks e tasks s))).
      t \<in> set (tasks_file s) \<or> (\<exists>raw\<in>set tasks. \<exists>m. t = stamped e raw m)"
    by (rule upsert_records_origin)
next
  assume "tasks \<noteq> []"
  then show "\<exists>m. stamped e (last tasks) m \<in> set (tasks_file (snd (save_extracted_tasks e tasks s)))"
    by (rule upsert_stores_last)
qed

theorem C2_status_values_witness:
  "fst (update_task_status sample_env ''b'' ''in_progress'' sample_store) \<noteq> Inl KeyError \<and>
   fst (update_task_status sample_env ''b'' ''in_progress'' sample_store) \<noteq> Inl ValueError \<and>
   list_all status_ok (tasks_file sample_store) \<and>
   list_all status_ok (tasks_file (snd (update_task_status sample_env ''b'' ''in_progress'' sample_store))) \<and>
   list_all status_ok (tasks_file (snd (reschedule_task sample_env ''b'' ''2024-03-01'' None sample_store))) \<and>
   list_all status_ok (tasks_file (snd (delete_task sample_env ''b'' True sample_store))) \<and>
   list_all (\<lambda>raw. case raw ''status'' of None \<Rightarrow> True | Some v \<Rightarrow> v \<in> JStr ` allowed)
     [[''id'' \<mapsto> JStr ''x''], task_c] \<and>
   list_all status_ok (tasks_file (snd (save_extracted_tasks sample_env [[''id'' \<mapsto> JStr ''x''], task_c] sample_store)))"
proof -
  have h: "list_all status_ok (tasks_file sample_store)"
    by (simp add: sample_store_def task_a_def task_b_def task_c_def task_d_def status_ok_def allowed_def)
  have h2: "list_all (\<lambda>raw. case raw ''status'' of None \<Rightarrow> True | Some v \<Rightarrow> v \<in> JStr ` allowed)
              [[''id'' \<mapsto> JStr ''x''], task_c]"
    by (simp add: task_c_def allowed_def)
  have ok: "fst (update_task_status sample_env ''b'' ''in_progress'' sample_store) \<noteq> Inl KeyError"
           "fst (update_task_status sample_env ''b'' ''in_progress'' sample_store) \<noteq> Inl ValueError"
    by (simp_all add: update_task_status_error_iff allowed_def sample_store_def task_b_def has_id_def)
  from C2_status_values_amended [of sample_env "''b''" "''in_progress''" sample_store "''2024-03-01''" None True
        "[[''id'' \<mapsto> JStr ''x''], task_c]"]
  show ?thesis using h h2 ok by blast
qed

text \<open>
  The claim as stated fails for the upsert: a payload with the status \<^verbatim>\<open>bogus\<close> is stored
  with that status.
\<close>

theorem C2_upsert_status_counterexample:
  "''bogus'' \<notin> allowed \<and>
   get (tasks_file (snd (save_extracted_tasks sample_env
          [[''id'' \<mapsto> JStr ''x'', ''status'' \<mapsto> JStr ''bogus'']] empty_store)) ! 0) ''status'' = JStr ''bogus'' \<and>
   \<not> list_all status_ok (tasks_file (snd (save_extracted_tasks sample_env
          [[''id'' \<mapsto> JStr ''x'', ''status'' \<mapsto> JStr ''bogus'']] empty_store)))"
proof -
  let ?p = "[''id'' \<mapsto> JStr ''x'', ''status'' \<mapsto> JStr ''bogus'']"
  have up: "tasks_file (snd (save_extracted_tasks sample_env [?p] empty_store)) = [stamped sample_env ?p 0]"
    by (simp add: save_extracted_tasks_single empty_store_def index_by_id_def)
  have st: "get (stamped sample_env ?p 0) ''status'' = JStr ''bogus''"
    by (simp add: stamped_status)
  show ?thesis
    unfolding up using st by (simp add: status_ok_def allowed_def)
qed


section \<open>What the operations do to \<open>created_at\<close>\<close>

lemma stamped_created_at:
  "get (stamped e raw n) ''created_at'' =
     (case raw ''created_at'' of None \<Rightarrow> JStr (now_iso e (n + 1)) | Some v \<Rightarrow> v)"
  by (simp add: stamped_get normalize_created_at)

lemma update_task_status_created_at:
  "get (tasks_file (snd (update_task_status e task_id status s)) ! j) ''created_at'' =
     get (tasks_file s ! j) ''created_at''"
proof (cases "fst (update_task_status e task_id status s)")
  case (Inl err)
  then show ?thesis by (simp add: update_task_status_error_unchanged)
next
  case (Inr t)
  then have a: "status \<in> allowed"
    by (auto simp: update_task_status_def split: if_splits)
  with Inr obtain k where k: "first_index (has_id task_id) (tasks_file s) = Some k"
    by (cases "first_index (has_id task_id) (tasks_file s)") (auto simp: update_task_status_missing)
  then have "k < length (tasks_file s)" by (simp add: first_index_Some_iff)
  then show ?thesis
    by (cases "j = k") (simp_all add: update_task_status_found [OF a k] Let_def)
qed

lemma reschedule_task_created_at:
  "get (tasks_file (snd (reschedule_task e task_id due_date due_time s)) ! j) ''created_at'' =
     get (tasks_file s ! j) ''created_at''"
proof (cases "first_index (has_id task_id) (tasks_file s)")
  case None
  then show ?thesis by (simp add: reschedule_task_missing)
next
  case (Some k)
  then have "k < length (tasks_file s)" by (simp add: first_index_Some_iff)
  then show ?thesis
    by (cases "j = k") (simp_all add: reschedule_task_found [OF Some] Let_def)
qed

lemma soft_delete_created_at:
  "get (tasks_file (snd (delete_task e task_id True s)) ! j) ''created_at'' =
     get (tasks_file s ! j) ''created_at''"
proof (cases "first_index (has_id task_id) (tasks_file s)")
  case None
  then show ?thesis by (simp add: soft_delete_missing)
next
  case (Some k)
  then have "k < length (tasks_file s)" by (simp add: first_index_Some_iff)
  then show ?thesis
    by (cases "j = k") (simp_all add: soft_delete_found [OF Some])
qed

lemma upsert_single_replaces:
  assumes "i < length (tasks_file s)"
      and "get (tasks_file s ! i) ''id'' = JStr tid" and "tid \<noteq> []"
      and "\<forall>j. i < j \<and> j < length (tasks_file s) \<longrightarrow> get (tasks_file s ! j) ''id'' \<noteq> JStr tid"
      and "raw ''id'' = Some (JStr tid)"
  shows "tasks_file (snd (save_extracted_tasks e [raw] s)) = (tasks_file s)[i := stamped e raw (clock s)]"
    and "get (tasks_file (snd (save_extracted_tasks e [raw] s)) ! i) ''created_at'' =
           (case raw ''created_at'' of None \<Rightarrow> JStr (now_iso e (clock s + 1)) | Some v \<Rightarrow> v)"
proof -
  have id: "get (stamped e raw (clock s)) ''id'' = JStr tid"
    using assms(5) by (simp add: stamped_id)
  have "index_by_id (tasks_file s) (JStr tid) = Some i"
    unfolding index_by_id_Some_iff using assms(1-4) by auto
  with id show up: "tasks_file (snd (save_extracted_tasks e [raw] s)) = (tasks_file s)[i := stamped e raw (clock s)]"
    by (simp add: save_extracted_tasks_single)
  show "get (tasks_file (snd (save_extracted_tasks e [raw] s)) ! i) ''created_at'' =
           (case raw ''created_at'' of None \<Rightarrow> JStr (now_iso e (clock s + 1)) | Some v \<Rightarrow> v)"
    unfolding up using assms(1) by (simp add: stamped_created_at)
qed

text \<open>
  Claim C4, as amended. \<open>update_task_status\<close>, \<open>reschedule_task\<close> and soft delete leave the
  \<open>created_at\<close> of every stored record unchanged. An upsert of any batch leaves each stored
  record either as it was, or replaced by the normalized form of a payload of the batch whose
  id (the generated one, for a payload without an id) compares equal to the id of the record;
  the \<open>created_at\<close> of a record replaced in this way is the \<open>created_at\<close> of that payload
  whenever the payload has the key, and otherwise a time read from the clock during this call:
  the value stored before is not carried over. In particular, take a batch of one payload
  whose id is a non-empty string \<open>tid\<close>, and a store that holds a record with the id \<open>tid\<close> at
  index \<open>i\<close> and no record with that id after it: the upsert replaces the record at index \<open>i\<close>
  by the normalized payload and leaves the other records alone, and the stored \<open>created_at\<close>
  is then the payload's \<open>created_at\<close> when the payload has that key, and the second clock
  reading of the call otherwise.
\<close>

theorem C4_created_at_amended:
  "(\<forall>j. get (tasks_file (snd (update_task_status e task_id status s)) ! j) ''created_at'' =
        get (tasks_file s ! j) ''created_at'') \<and>
   (\<forall>j. get (tasks_file (snd (reschedule_task e task_id due_date due_time s)) ! j) ''created_at'' =
        get (tasks_file s ! j) ''created_at'') \<and>
   (\<forall>j. get (tasks_file (snd (delete_task e task_id True s)) ! j) ''created_at'' =
        get (tasks_file s ! j) ''created_at'') \<and>
   (\<forall>i<length (tasks_file s).
      tasks_file (snd (save_extracted_tasks e tasks s)) ! i = tasks_file s ! i \<or>
      (\<exists>raw\<in>set tasks. \<exists>m.
         clock s \<le> m \<and> m + 1 < clock (snd (save_extracted_tasks e tasks s)) \<and>
         tasks_file (snd (save_extracted_tasks e tasks s)) ! i = stamped e raw m \<and>
         py_eq (get (stamped e raw m) ''id'') (get (tasks_file s ! i) ''id'') \<and>
         get (tasks_file (snd (save_extracted_tasks e tasks s)) ! i) ''created_at'' =
           (case raw ''created_at'' of None \<Rightarrow> JStr (now_iso e (m + 1)) | Some v \<Rightarrow> v))) \<and>
   (\<forall>i tid raw.
      i < length (tasks_file s) \<and> get (tasks_file s ! i) ''id'' = JStr tid \<and> tid \<noteq> [] \<and>
      (\<forall>j. i < j \<and> j < length (tasks_file s) \<longrightarrow> get (tasks_file s ! j) ''id'' \<noteq> JStr tid) \<and>
      raw ''id'' = Some (JStr tid) \<longrightarrow>
      tasks_file (snd (save_extracted_tasks e [raw] s)) = (tasks_file s)[i := stamped e raw (clock s)] \<and>
      get (tasks_file (snd (save_extracted_tasks e [raw] s)) ! i) ''created_at'' =
        (case raw ''created_at'' of None \<Rightarrow> JStr (now_iso e (clock s + 1)) | Some v \<Rightarrow> v))"
proof -
  let ?rows' = "tasks_file (snd (save_extracted_tasks e tasks s))"
  have u: "\<forall>j. get (tasks_file (snd (update_task_status e task_id status s)) ! j) ''created_at'' =
        get (tasks_file s ! j) ''created_at''"
    by (simp add: update_task_status_created_at)
  have r: "\<forall>j. get (tasks_file (snd (reschedule_task e task_id due_date due_time s)) ! j) ''created_at'' =
        get (tasks_file s ! j) ''created_at''"
    by (simp add: reschedule_task_created_at)
  have d: "\<forall>j. get (tasks_file (snd (delete_task e task_id True s)) ! j) ''created_at'' =
        get (tasks_file s ! j) ''created_at''"
    by (simp add: soft_delete_created_at)
  have g: "\<forall>i<length (tasks_file s).
      ?rows' ! i = tasks_file s ! i \<or>
      (\<exists>raw\<in>set tasks. \<exists>m.
         clock s \<le> m \<and> m + 1 < clock (snd (save_extracted_tasks e tasks s)) \<and>
         ?rows' ! i = stamped e raw m \<and>
         py_eq (get (stamped e raw m) ''id'') (get (tasks_file s ! i) ''id'') \<and>
         get (?rows' ! i) ''created_at'' =
           (case raw ''created_at'' of None \<Rightarrow> JStr (now_iso e (m + 1)) | Some v \<Rightarrow> v))"
  proof (intro allI impI)
    fix i assume "i < length (tasks_file s)"
    from upsert_keeps_records [OF this, where e = e and tasks = tasks]
    have "?rows' ! i = tasks_file s ! i \<or>
          (\<exists>raw\<in>set tasks. \<exists>m.
             clock s \<le> m \<and> m + 1 < clock (snd (save_extracted_tasks e tasks s)) \<and>
             ?rows' ! i = stamped e raw m \<and>
             py_eq (get (stamped e raw m) ''id'') (get (tasks_file s ! i) ''id''))"
      by blast
    then show "?rows' ! i = tasks_file s ! i \<or>
      (\<exists>raw\<in>set tasks. \<exists>m.
         clock s \<le> m \<and> m + 1 < clock (snd (save_extracted_tasks e tasks s)) \<and>
         ?rows' ! i = stamped e raw m \<and>
         py_eq (get (stamped e raw m) ''id'') (get (tasks_file s ! i) ''id'') \<and>
         get (?rows' ! i) ''created_at'' =
           (case raw ''created_at'' of None \<Rightarrow> JStr (now_iso e (m + 1)) | Some v \<Rightarrow> v))"
    proof
      assume "?rows' ! i = tasks_file s ! i"
      then show ?thesis by (rule disjI1)
    next
      assume "\<exists>raw\<in>set tasks. \<exists>m.
             clock s \<le> m \<and> m + 1 < clock (snd (save_extracted_tasks e tasks s)) \<and>
             ?rows' ! i = stamped e raw m \<and>
             py_eq (get (stamped e raw m) ''id'') (get (tasks_file s ! i) ''id'')"
      then obtain raw m where raw: "raw \<in> set tasks" and m: "clock s \<le> m"
        "m + 1 < clock (snd (save_extracted_tasks e tasks s))"
        and st: "?rows' ! i = stamped e raw m"
        and eq: "py_eq (get (stamped e raw m) ''id'') (get (tasks_file s ! i) ''id'')"
        by blast
      from st have "get (?rows' ! i) ''created_at'' =
           (case raw ''created_at'' of None \<Rightarrow> JStr (now_iso e (m + 1)) | Some v \<Rightarrow> v)"
        by (simp only: stamped_created_at)
      with raw m st eq show ?thesis by blast
    qed
  qed
  have o: "\<forall>i tid raw.
      i < length (tasks_file s) \<and> get (tasks_file s ! i) ''id'' = JStr tid \<and> tid \<noteq> [] \<and>
      (\<forall>j. i < j \<and> j < length (tasks_file s) \<longrightarrow> get (tasks_file s ! j) ''id'' \<noteq> JStr tid) \<and>
      raw ''id'' = Some (JStr tid) \<longrightarrow>
      tasks_file (snd (save_extracted_tasks e [raw] s)) = (tasks_file s)[i := stamped e raw (clock s)] \<and>
      get (tasks_file (snd (save_extracted_tasks e [raw] s)) ! i) ''created_at'' =
        (case raw ''created_at'' of None \<Rightarrow> JStr (now_iso e (clock s + 1)) | Some v \<Rightarrow> v)"
    using upsert_single_replaces by blast
  from u r d g o show ?thesis by (intro conjI)
qed

lemma sample_store_index_a: "index_by_id (tasks_file sample_store) (JStr ''a'') = Some 0"
  by (simp add: index_by_id_def sample_store_def task_a_def task_b_def task_c_def task_d_def)

theorem C4_created_at_witness:
  "0 < length (tasks_file sample_store) \<and>
   get (tasks_file sample_store ! 0) ''id'' = JStr ''a'' \<and> ''a'' \<noteq> [] \<and>
   length (tasks_file sample_store) = 4 \<and>
   get (tasks_file sample_store ! 1) ''id'' \<noteq> JStr ''a'' \<and>
   get (tasks_file sample_store ! 2) ''id'' \<noteq> JStr ''a'' \<and>
   get (tasks_file sample_store ! 3) ''id'' \<noteq> JStr ''a'' \<and>
   [''id'' \<mapsto> JStr ''a'', ''created_at'' \<mapsto> JStr ''2023-12-01T08:00:00''] ''id'' = Some (JStr ''a'') \<and>
   get (tasks_file (snd (save_extracted_tasks sample_env
          [[''id'' \<mapsto> JStr ''a'', ''created_at'' \<mapsto> JStr ''2023-12-01T08:00:00'']] sample_store)) ! 0) ''created_at''
     = JStr ''2023-12-01T08:00:00'' \<and>
   get (tasks_file (snd (save_extracted_tasks sample_env
          [[''id'' \<mapsto> JStr ''a'', ''created_at'' \<mapsto> JStr ''2023-12-01T08:00:00'']] sample_store)) ! 0) ''created_at''
     = get (tasks_file sample_store ! 0) ''created_at''"
proof -
  let ?raw = "[''id'' \<mapsto> JStr ''a'', ''created_at'' \<mapsto> JStr ''2023-12-01T08:00:00'']"
  have h1: "0 < length (tasks_file sample_store)" by (simp add: sample_store_def)
  have h2: "get (tasks_file sample_store ! 0) ''id'' = JStr ''a''"
    by (simp add: sample_store_def task_a_def)
  have h3: "''a'' \<noteq> []" by simp
  have h4: "\<forall>j. 0 < j \<and> j < length (tasks_file sample_store) \<longrightarrow>
              get (tasks_file sample_store ! j) ''id'' \<noteq> JStr ''a''"
  proof (intro allI impI)
    fix j assume "0 < j \<and> j < length (tasks_file sample_store)"
    then have "j = 1 \<or> j = 2 \<or> j = 3" by (auto simp: sample_store_def)
    then show "get (tasks_file sample_store ! j) ''id'' \<noteq> JStr ''a''"
      by (auto simp: sample_store_def task_b_def task_c_def task_d_def)
  qed
  have h5: "?raw ''id'' = Some (JStr ''a'')" by simp
  have old: "get (tasks_file sample_store ! 0) ''created_at'' = JStr ''2023-12-01T08:00:00''"
    by (simp add: sample_store_def task_a_def)
  note T = C4_created_at_amended [where s = sample_store and e = sample_env and tasks = "[?raw]"
             and task_id = "''a''" and status = "''done''"
             and due_date = "''2024-03-01''" and due_time = None]
  note S = T [THEN conjunct2, THEN conjunct2, THEN conjunct2, THEN conjunct2, rule_format,
             where i = 0 and tid = "''a''" and raw = ?raw]
  from h1 h2 h3 h4 h5 have "0 < length (tasks_file sample_store) \<and>
      get (tasks_file sample_store ! 0) ''id'' = JStr ''a'' \<and> ''a'' \<noteq> [] \<and>
      (\<forall>j. 0 < j \<and> j < length (tasks_file sample_store) \<longrightarrow>
           get (tasks_file sample_store ! j) ''id'' \<noteq> JStr ''a'') \<and>
      ?raw ''id'' = Some (JStr ''a'')"
    by (intro conjI)
  from S [OF this]
  have "get (tasks_file (snd (save_extracted_tasks sample_env [?raw] sample_store)) ! 0) ''created_at''
     = (case ?raw ''created_at'' of None \<Rightarrow> JStr (now_iso sample_env (clock sample_store + 1)) | Some v \<Rightarrow> v)"
    by (rule conjunct2)
  then have c1: "get (tasks_file (snd (save_extracted_tasks sample_env [?raw] sample_store)) ! 0) ''created_at''
     = JStr ''2023-12-01T08:00:00''" by simp
  have h4': "length (tasks_file sample_store) = 4"
    "get (tasks_file sample_store ! 1) ''id'' \<noteq> JStr ''a''"
    "get (tasks_file sample_store ! 2) ''id'' \<noteq> JStr ''a''"
    "get (tasks_file sample_store ! 3) ''id'' \<noteq> JStr ''a''"
    by (simp_all add: sample_store_def task_b_def task_c_def task_d_def)
  from c1 old h1 h2 h3 h4' h5 show ?thesis by simp
qed

text \<open>
  The claim as stated fails in both of its cases. An upsert of the id \<^verbatim>\<open>a\<close> without a
  \<^verbatim>\<open>created_at\<close> stores the current time as \<^verbatim>\<open>created_at\<close>; an upsert with another
  \<^verbatim>\<open>created_at\<close> stores that one.
\<close>

theorem C4_created_at_counterexample:
  "get (tasks_file sample_store ! 0) ''id'' = JStr ''a'' \<and>
   get (tasks_file sample_store ! 0) ''created_at'' = JStr ''2023-12-01T08:00:00'' \<and>
   ids (snd (save_extracted_tasks sample_env [[''id'' \<mapsto> JStr ''a'']] sample_store))
     = [JStr ''a'', JStr ''b'', JStr ''c'', JStr ''d''] \<and>
   get (tasks_file (snd (save_extracted_tasks sample_env [[''id'' \<mapsto> JStr ''a'']] sample_store)) ! 0)
       ''created_at'' = JStr ''2024-01-01T09:00:00'' \<and>
   get (tasks_file (snd (save_extracted_tasks sample_env
          [[''id'' \<mapsto> JStr ''a'', ''created_at'' \<mapsto> JStr ''2030-01-01T00:00:00'']] sample_store)) ! 0)
       ''created_at'' = JStr ''2030-01-01T00:00:00''"
proof -
  let ?p = "[''id'' \<mapsto> JStr ''a'']"
  let ?q = "[''id'' \<mapsto> JStr ''a'', ''created_at'' \<mapsto> JStr ''2030-01-01T00:00:00'']"
  have p: "tasks_file (snd (save_extracted_tasks sample_env [?p] sample_store)) =
             [stamped sample_env ?p 0, task_b, task_c, task_d]"
    using sample_store_index_a by (simp add: save_extracted_tasks_single stamped_id) (simp add: sample_store_def)
  have q: "tasks_file (snd (save_extracted_tasks sample_env [?q] sample_store)) =
             [stamped sample_env ?q 0, task_b, task_c, task_d]"
    using sample_store_index_a by (simp add: save_extracted_tasks_single stamped_id) (simp add: sample_store_def)
  have i: "ids (snd (save_extracted_tasks sample_env [?p] sample_store)) = [JStr ''a'', JStr ''b'', JStr ''c'', JStr ''d'']"
    unfolding ids_def p by (simp add: stamped_id task_b_def task_c_def task_d_def)
  have cp: "get (stamped sample_env ?p 0) ''created_at'' = JStr ''2024-01-01T09:00:00''"
    by (simp add: stamped_created_at sample_env_def)
  have cq: "get (stamped sample_env ?q 0) ''created_at'' = JStr ''2030-01-01T00:00:00''"
    by (simp add: stamped_created_at)
  have o: "get (tasks_file sample_store ! 0) ''id'' = JStr ''a''"
          "get (tasks_file sample_store ! 0) ''created_at'' = JStr ''2023-12-01T08:00:00''"
    by (simp_all add: sample_store_def task_a_def)
  show ?thesis unfolding p q using i cp cq o by (simp add: p)
qed

section \<open>Upserts one after another, and upserts that interleave\<close>

lemma save_extracted_tasks_from_fresh:
  "save_extracted_tasks_from e tasks (tasks_file s) s = save_extracted_tasks e tasks s"
  by (simp add: save_extracted_tasks_from_def save_extracted_tasks_def)

lemma save_extracted_tasks_from_stale:
  "tasks \<noteq> [] \<Longrightarrow>
   save_extracted_tasks_from e tasks loaded s = save_extracted_tasks e tasks (s\<lparr>tasks_file := loaded\<rparr>)"
  by (simp add: save_extracted_tasks_from_def save_extracted_tasks_def)

lemma load_load_save_save_rows:
  assumes "b \<noteq> []"
  shows "tasks_file (load_load_save_save e a b s) =
         tasks_file (snd (save_extracted_tasks e b (s\<lparr>clock := clock (snd (save_extracted_tasks e a s))\<rparr>)))"
proof -
  let ?s1 = "snd (save_extracted_tasks e a s)"
  have "load_load_save_save e a b s = snd (save_extracted_tasks e b (?s1\<lparr>tasks_file := tasks_file s\<rparr>))"
    by (simp add: load_load_save_save_def Let_def save_extracted_tasks_from_fresh
          save_extracted_tasks_from_stale [OF assms])
  moreover have "?s1\<lparr>tasks_file := tasks_file s\<rparr> = s\<lparr>clock := clock ?s1\<rparr>"
    by simp
  ultimately show ?thesis by simp
qed

lemma serial_upserts_keep_first:
  "\<forall>raw\<in>set a. \<exists>m. \<exists>t\<in>set (tasks_file (snd (save_extracted_tasks e b (snd (save_extracted_tasks e a s))))).
     py_eq (get t ''id'') (get (stamped e raw m) ''id'')"
proof
  let ?s1 = "snd (save_extracted_tasks e a s)"
  let ?s2 = "snd (save_extracted_tasks e b ?s1)"
  fix raw assume "raw \<in> set a"
  with upsert_stores_payloads [of a e s] obtain m t where t: "t \<in> set (tasks_file ?s1)"
    and eq: "py_eq (get t ''id'') (get (stamped e raw m) ''id'')" by blast
  from t obtain i where i: "i < length (tasks_file ?s1)" and ti: "tasks_file ?s1 ! i = t"
    by (auto simp: in_set_conv_nth)
  from upsert_keeps_records [OF i, where e = e and tasks = b]
  have len: "length (tasks_file ?s1) \<le> length (tasks_file ?s2)"
    and d: "tasks_file ?s2 ! i = tasks_file ?s1 ! i \<or>
          (\<exists>raw'\<in>set b. \<exists>m'. tasks_file ?s2 ! i = stamped e raw' m' \<and>
             py_eq (get (stamped e raw' m') ''id'') (get (tasks_file ?s1 ! i) ''id''))"
    by blast+
  from i len have mem: "tasks_file ?s2 ! i \<in> set (tasks_file ?s2)" by simp
  from d have "py_eq (get (tasks_file ?s2 ! i) ''id'') (get t ''id'')"
  proof
    assume "tasks_file ?s2 ! i = tasks_file ?s1 ! i"
    with ti show ?thesis by simp
  next
    assume "\<exists>raw'\<in>set b. \<exists>m'. tasks_file ?s2 ! i = stamped e raw' m' \<and>
             py_eq (get (stamped e raw' m') ''id'') (get (tasks_file ?s1 ! i) ''id'')"
    with ti show ?thesis by auto
  qed
  with eq have "py_eq (get (tasks_file ?s2 ! i) ''id'') (get (stamped e raw m) ''id'')"
    by (rule py_eq_trans [rotated])
  with mem show "\<exists>m. \<exists>t\<in>set (tasks_file ?s2). py_eq (get t ''id'') (get (stamped e raw m) ''id'')"
    by blast
qed

text \<open>
  Claim C9, as amended. The store holds no lock; the load, the loop and the store of an
  upsert are not a critical section, and what holds is this. Run on the collection as it is
  at that moment, the steps after the load are the method. Upserts that run one after another
  lose nothing: an upsert does not shorten the collection, it leaves every stored record in
  place unless the record made of a payload with an equal id replaces it, and after two
  upserts in a row every payload of the first batch and every payload of the second has a
  record with its id in the store. When two upserts both load before either stores and the
  second batch is not empty, the second store overwrites the first: the collection is then
  the one that the second batch alone makes of the collection that both loaded, so each of
  its records is a record stored before the two calls or the record made of a payload of
  the second batch.
\<close>

theorem C9_upserts_amended:
  "save_extracted_tasks_from e a (tasks_file s) s = save_extracted_tasks e a s \<and>
   length (tasks_file s) \<le> length (tasks_file (snd (save_extracted_tasks e a s))) \<and>
   (\<forall>i<length (tasks_file s).
      tasks_file (snd (save_extracted_tasks e a s)) ! i = tasks_file s ! i \<or>
      (\<exists>raw\<in>set a. \<exists>m.
         tasks_file (snd (save_extracted_tasks e a s)) ! i = stamped e raw m \<and>
         py_eq (get (stamped e raw m) ''id'') (get (tasks_file s ! i) ''id''))) \<and>
   (\<forall>raw\<in>set a. \<exists>m. \<exists>t\<in>set (tasks_file (snd (save_extracted_tasks e b (snd (save_extracted_tasks e a s))))).
      py_eq (get t ''id'') (get (stamped e raw m) ''id'')) \<and>
   (\<forall>raw\<in>set b. \<exists>m. \<exists>t\<in>set (tasks_file (snd (save_extracted_tasks e b (snd (save_extracted_tasks e a s))))).
      py_eq (get t ''id'') (get (stamped e raw m) ''id'')) \<and>
   (b \<noteq> [] \<longrightarrow>
      tasks_file (load_load_save_save e a b s) =
        tasks_file (snd (save_extracted_tasks e b (s\<lparr>clock := clock (snd (save_extracted_tasks e a s))\<rparr>))) \<and>
      (\<forall>t\<in>set (tasks_file (load_load_save_save e a b s)).
         t \<in> set (tasks_file s) \<or> (\<exists>raw\<in>set b. \<exists>m. t = stamped e raw m)))"
proof -
  have fresh: "save_extracted_tasks_from e a (tasks_file s) s = save_extracted_tasks e a s"
    by (rule save_extracted_tasks_from_fresh)
  have len: "length (tasks_file s) \<le> length (tasks_file (snd (save_extracted_tasks e a s)))"
  proof (cases "tasks_file s")
    case Nil
    then show ?thesis by simp
  next
    case (Cons t ts)
    then have "0 < length (tasks_file s)" by simp
    from upsert_keeps_records [OF this, where e = e and tasks = a] show ?thesis by blast
  qed
  have keep: "\<forall>i<length (tasks_file s).
      tasks_file (snd (save_extracted_tasks e a s)) ! i = tasks_file s ! i \<or>
      (\<exists>raw\<in>set a. \<exists>m.
         tasks_file (snd (save_extracted_tasks e a s)) ! i = stamped e raw m \<and>
         py_eq (get (stamped e raw m) ''id'') (get (tasks_file s ! i) ''id''))"
  proof (intro allI impI)
    fix i assume "i < length (tasks_file s)"
    from upsert_keeps_records [OF this, where e = e and tasks = a]
    show "tasks_file (snd (save_extracted_tasks e a s)) ! i = tasks_file s ! i \<or>
      (\<exists>raw\<in>set a. \<exists>m.
         tasks_file (snd (save_extracted_tasks e a s)) ! i = stamped e raw m \<and>
         py_eq (get (stamped e raw m) ''id'') (get (tasks_file s ! i) ''id''))"
      by blast
  qed
  have first: "\<forall>raw\<in>set a. \<exists>m. \<exists>t\<in>set (tasks_file (snd (save_extracted_tasks e b (snd (save_extracted_tasks e a s))))).
      py_eq (get t ''id'') (get (stamped e raw m) ''id'')"
    by (rule serial_upserts_keep_first)
  have second: "\<forall>raw\<in>set b. \<exists>m. \<exists>t\<in>set (tasks_file (snd (save_extracted_tasks e b (snd (save_extracted_tasks e a s))))).
      py_eq (get t ''id'') (get (stamped e raw m) ''id'')"
    by (rule upsert_stores_payloads)
  have inter: "b \<noteq> [] \<longrightarrow>
      tasks_file (load_load_save_save e a b s) =
        tasks_file (snd (save_extracted_tasks e b (s\<lparr>clock := clock (snd (save_extracted_tasks e a s))\<rparr>))) \<and>
      (\<forall>t\<in>set (tasks_file (load_load_save_save e a b s)).
         t \<in> set (tasks_file s) \<or> (\<exists>raw\<in>set b. \<exists>m. t = stamped e raw m))"
  proof
    assume b: "b \<noteq> []"
    let ?s' = "s\<lparr>clock := clock (snd (save_extracted_tasks e a s))\<rparr>"
    have rows: "tasks_file (load_load_save_save e a b s) = tasks_file (snd (save_extracted_tasks e b ?s'))"
      using b by (rule load_load_save_save_rows)
    have "\<forall>t\<in>set (tasks_file (snd (save_extracted_tasks e b ?s'))).
            t \<in> set (tasks_file ?s') \<or> (\<exists>raw\<in>set b. \<exists>m. t = stamped e raw m)"
      by (rule upsert_records_origin)
    then have "\<forall>t\<in>set (tasks_file (load_load_save_save e a b s)).
         t \<in> set (tasks_file s) \<or> (\<exists>raw\<in>set b. \<exists>m. t = stamped e raw m)"
      unfolding rows by simp
    with rows show "tasks_file (load_load_save_save e a b s) = tasks_file (snd (save_extracted_tasks e b ?s')) \<and>
      (\<forall>t\<in>set (tasks_file (load_load_save_save e a b s)).
         t \<in> set (tasks_file s) \<or> (\<exists>raw\<in>set b. \<exists>m. t = stamped e raw m))"
      by (rule conjI)
  qed
  from fresh len keep first second inter show ?thesis by (intro conjI)
qed

theorem C9_upserts_witness:
  "[[''id'' \<mapsto> JStr ''y'']] \<noteq> [] \<and>
   0 < length (tasks_file sample_store) \<and>
   tasks_file (snd (save_extracted_tasks sample_env [[''id'' \<mapsto> JStr ''x'']] sample_store)) ! 0 =
     tasks_file sample_store ! 0 \<and>
   tasks_file (load_load_save_save sample_env [[''id'' \<mapsto> JStr ''x'']] [[''id'' \<mapsto> JStr ''y'']] sample_store) =
     tasks_file (snd (save_extracted_tasks sample_env [[''id'' \<mapsto> JStr ''y'']]
        (sample_store\<lparr>clock := clock (snd (save_extracted_tasks sample_env [[''id'' \<mapsto> JStr ''x'']] sample_store))\<rparr>)))"
proof -
  let ?x = "[''id'' \<mapsto> JStr ''x'']"
  let ?y = "[''id'' \<mapsto> JStr ''y'']"
  note T = C9_upserts_amended [where e = sample_env and a = "[?x]" and b = "[?y]" and s = sample_store]
  have h1: "[?y] \<noteq> []" by simp
  have h2: "0 < length (tasks_file sample_store)" by (simp add: sample_store_def)
  from T h1 have c1: "tasks_file (load_load_save_save sample_env [?x] [?y] sample_store) =
     tasks_file (snd (save_extracted_tasks sample_env [?y]
        (sample_store\<lparr>clock := clock (snd (save_extracted_tasks sample_env [?x] sample_store))\<rparr>)))"
    by blast
  from T h2 have d: "tasks_file (snd (save_extracted_tasks sample_env [?x] sample_store)) ! 0 =
       tasks_file sample_store ! 0 \<or>
      (\<exists>raw\<in>set [?x]. \<exists>m.
         tasks_file (snd (save_extracted_tasks sample_env [?x] sample_store)) ! 0 = stamped sample_env raw m \<and>
         py_eq (get (stamped sample_env raw m) ''id'') (get (tasks_file sample_store ! 0) ''id''))"
    by blast
  have "\<not> (\<exists>raw\<in>set [?x]. \<exists>m.
         tasks_file (snd (save_extracted_tasks sample_env [?x] sample_store)) ! 0 = stamped sample_env raw m \<and>
         py_eq (get (stamped sample_env raw m) ''id'') (get (tasks_file sample_store ! 0) ''id''))"
    by (simp add: stamped_id sample_store_def task_a_def)
  with d have c2: "tasks_file (snd (save_extracted_tasks sample_env [?x] sample_store)) ! 0 =
       tasks_file sample_store ! 0" by blast
  from h1 h2 c2 c1 show ?thesis by (intro conjI)
qed

text \<open>
  The claim as stated fails. On the empty store, let one caller upsert the id \<^verbatim>\<open>x\<close> and another
  the id \<^verbatim>\<open>y\<close>. When both load before either stores, the store ends with the record \<^verbatim>\<open>y\<close>
  alone and the record \<^verbatim>\<open>x\<close> is lost; one after the other, the two calls leave both records.
\<close>

theorem C9_lost_update_counterexample:
  "ids (load_load_save_save sample_env [[''id'' \<mapsto> JStr ''x'']] [[''id'' \<mapsto> JStr ''y'']] empty_store)
     = [JStr ''y''] \<and>
   JStr ''x'' \<notin> set (ids (load_load_save_save sample_env [[''id'' \<mapsto> JStr ''x'']] [[''id'' \<mapsto> JStr ''y'']]
                              empty_store)) \<and>
   ids (snd (save_extracted_tasks sample_env [[''id'' \<mapsto> JStr ''y'']]
          (snd (save_extracted_tasks sample_env [[''id'' \<mapsto> JStr ''x'']] empty_store))))
     = [JStr ''x'', JStr ''y'']"
proof -
  let ?x = "[''id'' \<mapsto> JStr ''x'']"
  let ?y = "[''id'' \<mapsto> JStr ''y'']"
  have e: "index_by_id [] = (\<lambda>k. None)" by (simp add: index_by_id_def)
  have sx: "snd (save_extracted_tasks sample_env [?x] empty_store) =
              \<lparr>tasks_file = [stamped sample_env ?x 0], clock = clock_after sample_env ?x 0\<rparr>"
    by (simp add: save_extracted_tasks_single empty_store_def e)
  have ix: "index_by_id [stamped sample_env ?x 0] (JStr ''y'') = None"
    by (simp add: index_by_id_def stamped_id)
  have i: "ids (load_load_save_save sample_env [?x] [?y] empty_store) = [JStr ''y'']"
    by (simp add: load_load_save_save_def save_extracted_tasks_from_stale
          save_extracted_tasks_single empty_store_def e ids_def stamped_id)
  have s: "ids (snd (save_extracted_tasks sample_env [?y] (snd (save_extracted_tasks sample_env [?x] empty_store))))
     = [JStr ''x'', JStr ''y'']"
    unfolding sx by (simp add: save_extracted_tasks_single ids_def stamped_id ix)
  from i s show ?thesis by simp
qed

section \<open>The sort\<close>

lemma py_insert_mset: "py_insert key x ys = Inr zs \<Longrightarrow> mset zs = add_mset x (mset ys)"
proof (induction ys arbitrary: zs)
  case Nil
  then show ?case by auto
next
  case (Cons y ys)
  show ?case
  proof (cases "tuple_lt (key x) (key y)")
    case None
    with Cons.prems show ?thesis by simp
  next
    case (Some b)
    show ?thesis
    proof (cases b)
      case True
      with Some Cons.prems show ?thesis by auto
    next
      case False
      with Some Cons.prems obtain zs' where z: "py_insert key x ys = Inr zs'" "zs = y # zs'"
        by (cases "py_insert key x ys") auto
      from Cons.IH [OF z(1)] z(2) show ?thesis by simp
    qed
  qed
qed

lemma py_sort_into_mset: "py_sort_into key xs acc = Inr zs \<Longrightarrow> mset zs = mset xs + mset acc"
proof (induction xs arbitrary: acc)
  case Nil
  then show ?case by simp
next
  case (Cons x xs)
  then obtain acc' where a: "py_insert key x acc = Inr acc'" "py_sort_into key xs acc' = Inr zs"
    by (cases "py_insert key x acc") auto
  from Cons.IH [OF a(2)] py_insert_mset [OF a(1)] show ?case by simp
qed

lemma py_sort_mset: "py_sort key xs = Inr zs \<Longrightarrow> mset zs = mset xs"
  using py_sort_into_mset [of key xs "[]" zs] by (simp add: py_sort_def)

lemma py_sort_set: "py_sort key xs = Inr zs \<Longrightarrow> set zs = set xs"
  using py_sort_mset [of key xs zs] by (metis set_mset_mset)

text \<open>The sort depends on the keys only, and commutes with a map.\<close>

lemma py_insert_map:
  "py_insert key (f x) (map f ys) = map_sum id (map f) (py_insert (\<lambda>a. key (f a)) x ys)"
  by (induction ys) (auto split: option.splits bool.splits sum.splits)

lemma py_sort_into_map:
  "py_sort_into key (map f xs) (map f acc) = map_sum id (map f) (py_sort_into (\<lambda>a. key (f a)) xs acc)"
proof (induction xs arbitrary: acc)
  case Nil
  then show ?case by simp
next
  case (Cons x xs)
  show ?case
  proof (cases "py_insert (\<lambda>a. key (f a)) x acc")
    case (Inl err)
    then show ?thesis by (simp add: py_insert_map)
  next
    case (Inr acc')
    with Cons.IH [of acc'] show ?thesis by (simp add: py_insert_map)
  qed
qed

lemma py_sort_map: "py_sort key (map f xs) = map_sum id (map f) (py_sort (\<lambda>a. key (f a)) xs)"
  using py_sort_into_map [of key f xs "[]"] by (simp add: py_sort_def)

lemma py_insert_cong:
  "key x = key' x \<Longrightarrow> \<forall>y\<in>set ys. key y = key' y \<Longrightarrow> py_insert key x ys = py_insert key' x ys"
  by (induction ys) (auto split: option.splits bool.splits sum.splits)

lemma py_sort_into_cong:
  assumes "\<forall>y\<in>set xs \<union> set acc. key y = key' y"
  shows "py_sort_into key xs acc = py_sort_into key' xs acc"
  using assms
proof (induction xs arbitrary: acc)
  case Nil
  then show ?case by simp
next
  case (Cons x xs)
  have e: "py_insert key x acc = py_insert key' x acc"
    using Cons.prems by (intro py_insert_cong) auto
  show ?case
  proof (cases "py_insert key' x acc")
    case (Inl err)
    with e show ?thesis by simp
  next
    case (Inr acc')
    then have "set acc' = insert x (set acc)"
      using py_insert_mset [of key' x acc acc'] by (metis set_mset_mset set_mset_add_mset_insert)
    with Cons.prems have "\<forall>y\<in>set xs \<union> set acc'. key y = key' y" by auto
    from Cons.IH [OF this] e Inr show ?thesis by simp
  qed
qed

lemma py_sort_cong: "\<forall>y\<in>set xs. key y = key' y \<Longrightarrow> py_sort key xs = py_sort key' xs"
  using py_sort_into_cong [of xs "[]" key key'] by (simp add: py_sort_def)





section \<open>Queries on two stores whose records agree on the queried fields\<close>

lemma sorted_filter_zip_fst:
  assumes "length xs = length ys"
  shows "py_sort K (filter P xs) =
           map_sum id (map fst) (py_sort (\<lambda>z. K (fst z)) (filter (\<lambda>z. P (fst z)) (zip xs ys)))"
proof -
  have "filter P (map fst (zip xs ys)) = map fst (filter (\<lambda>z. P (fst z)) (zip xs ys))"
    by (simp only: filter_map comp_def)
  then have "filter P xs = map fst (filter (\<lambda>z. P (fst z)) (zip xs ys))"
    by (simp only: map_fst_zip [OF assms])
  then show ?thesis by (simp only: py_sort_map)
qed

lemma sorted_filter_zip_snd:
  assumes "length xs = length ys"
      and "\<forall>z\<in>set (zip xs ys). P (snd z) = P (fst z) \<and> K (snd z) = K (fst z)"
  shows "py_sort K (filter P ys) =
           map_sum id (map snd) (py_sort (\<lambda>z. K (fst z)) (filter (\<lambda>z. P (fst z)) (zip xs ys)))"
proof -
  have "filter P (map snd (zip xs ys)) = map snd (filter (\<lambda>z. P (snd z)) (zip xs ys))"
    by (simp only: filter_map comp_def)
  then have "filter P ys = map snd (filter (\<lambda>z. P (snd z)) (zip xs ys))"
    by (simp only: map_snd_zip [OF assms(1)])
  also have "filter (\<lambda>z. P (snd z)) (zip xs ys) = filter (\<lambda>z. P (fst z)) (zip xs ys)"
    using assms(2) by (intro filter_cong) auto
  finally have "py_sort K (filter P ys) =
      map_sum id (map snd) (py_sort (\<lambda>z. K (snd z)) (filter (\<lambda>z. P (fst z)) (zip xs ys)))"
    by (simp only: py_sort_map)
  also have "py_sort (\<lambda>z. K (snd z)) (filter (\<lambda>z. P (fst z)) (zip xs ys)) =
             py_sort (\<lambda>z. K (fst z)) (filter (\<lambda>z. P (fst z)) (zip xs ys))"
    using assms(2) by (intro py_sort_cong) auto
  finally show ?thesis .
qed

lemma sorted_filter_update:
  assumes "i < length xs" and "P y = P (xs ! i)" and "K y = K (xs ! i)"
      and "py_sort K (filter P xs) = Inr res" and "xs ! i \<in> set res"
  shows "\<exists>res'. py_sort K (filter P (xs[i := y])) = Inr res' \<and> y \<in> set res' \<and> length res' = length res"
proof -
  let ?ys = "xs[i := y]"
  let ?fz = "filter (\<lambda>z. P (fst z)) (zip xs ?ys)"
  have len: "length xs = length ?ys" by simp
  have agree: "\<forall>z\<in>set (zip xs ?ys). P (snd z) = P (fst z) \<and> K (snd z) = K (fst z)"
  proof
    fix z assume "z \<in> set (zip xs ?ys)"
    then obtain j where j: "j < length xs" "z = (xs ! j, ?ys ! j)"
      by (auto simp: set_zip)
    show "P (snd z) = P (fst z) \<and> K (snd z) = K (fst z)"
      using j assms(2,3) by (cases "j = i") simp_all
  qed
  from assms(4) sorted_filter_zip_fst [OF len, of K P]
  obtain rz where rz: "py_sort (\<lambda>z. K (fst z)) ?fz = Inr rz" "res = map fst rz"
    by (cases "py_sort (\<lambda>z. K (fst z)) ?fz") auto
  have r': "py_sort K (filter P ?ys) = Inr (map snd rz)"
    using sorted_filter_zip_snd [OF len agree] rz(1) by simp
  have "P (xs ! i)"
    using assms(4,5) py_sort_set [OF assms(4)] by auto
  moreover have "(xs ! i, y) \<in> set (zip xs ?ys)"
    using assms(1) by (auto simp: set_zip intro!: exI [of _ i])
  ultimately have "(xs ! i, y) \<in> set ?fz" by simp
  then have "(xs ! i, y) \<in> set rz" using py_sort_set [OF rz(1)] by simp
  then have "y \<in> set (map snd rz)" by force
  with r' rz(2) show ?thesis by simp
qed

lemma date_range_loop_Cons:
  "date_range_loop start_date end_date workspace_id user_id include_done (t # rows) =
     (if truthy (get t ''due_date'') \<and> (\<forall>d. get t ''due_date'' \<noteq> JStr d) then Inl TypeError
      else if in_range start_date end_date workspace_id user_id include_done t
      then (case date_range_loop start_date end_date workspace_id user_id include_done rows of
              Inl err \<Rightarrow> Inl err | Inr results \<Rightarrow> Inr (t # results))
      else date_range_loop start_date end_date workspace_id user_id include_done rows)"
proof (cases "get t ''due_date''")
  case JNull
  then show ?thesis by (simp add: in_range_def)
next
  case (JBool b)
  then show ?thesis by (simp add: in_range_def)
next
  case (JNum n)
  then show ?thesis by (simp add: in_range_def)
next
  case (JStr d)
  then show ?thesis
    by (cases "d = []"; cases "start_date \<le> d"; cases "d \<le> end_date")
       (simp_all add: in_range_def Let_def)
qed

lemma date_range_loop_subset:
  "date_range_loop start_date end_date workspace_id user_id include_done rows = Inr res
   \<Longrightarrow> set res \<subseteq> set rows"
proof (induction rows arbitrary: res)
  case Nil
  then show ?case by simp
next
  case (Cons t rows)
  let ?rest = "date_range_loop start_date end_date workspace_id user_id include_done rows"
  from Cons.prems have "?rest = Inr res \<or> (\<exists>r. ?rest = Inr r \<and> res = t # r)"
    unfolding date_range_loop_Cons by (cases ?rest) (auto split: if_splits)
  with Cons.IH show ?case by auto
qed

section \<open>Deleting\<close>

text \<open>
  Claim C7. For an id that some record has: soft delete succeeds, sets the status of the first
  record with that id to \<^verbatim>\<open>archived\<close> and its \<open>updated_at\<close> to the current time, leaves
  \<open>completed_at\<close> and the number of records as they were, and every \<open>get_tasks_by_note\<close> query
  that returned the record before returns the archived record afterwards. Hard delete
  succeeds and removes the records with that id, so that no later \<open>get_tasks_by_note\<close> or
  \<open>get_tasks_by_date_range\<close> query returns a record with that id.
\<close>

theorem C7_soft_and_hard_delete:
  assumes "\<exists>t\<in>set (tasks_file s). has_id task_id t"
  shows "\<exists>i archived.
           i < length (tasks_file s) \<and> has_id task_id (tasks_file s ! i) \<and>
           archived = (tasks_file s ! i)(''status'' \<mapsto> JStr ''archived'',
                                        ''updated_at'' \<mapsto> JStr (now_iso e (clock s))) \<and>
           delete_task e task_id True s =
             (Inr (), \<lparr>tasks_file = (tasks_file s)[i := archived], clock = clock s + 1\<rparr>) \<and>
           get archived ''status'' = JStr ''archived'' \<and>
           get archived ''updated_at'' = JStr (now_iso e (clock s)) \<and>
           get archived ''completed_at'' = get (tasks_file s ! i) ''completed_at'' \<and>
           has_id task_id archived \<and>
           length (tasks_file (snd (delete_task e task_id True s))) = length (tasks_file s) \<and>
           (\<forall>note_id workspace_id res.
              get_tasks_by_note note_id workspace_id s = Inr res \<and> tasks_file s ! i \<in> set res \<longrightarrow>
              (\<exists>res'. get_tasks_by_note note_id workspace_id (snd (delete_task e task_id True s)) = Inr res' \<and>
                      archived \<in> set res' \<and> length res' = length res)) \<and>
           delete_task e task_id False s =
             (Inr (), s\<lparr>tasks_file := filter (\<lambda>t. \<not> has_id task_id t) (tasks_file s)\<rparr>) \<and>
           (\<forall>note_id workspace_id res.
              get_tasks_by_note note_id workspace_id (snd (delete_task e task_id False s)) = Inr res \<longrightarrow>
              (\<forall>t\<in>set res. \<not> has_id task_id t)) \<and>
           (\<forall>start_date end_date workspace_id user_id include_done res.
              get_tasks_by_date_range start_date end_date workspace_id user_id include_done
                (snd (delete_task e task_id False s)) = Inr res \<longrightarrow>
              (\<forall>t\<in>set res. \<not> has_id task_id t))"
proof -
  let ?rows = "tasks_file s"
  from first_index_exists [OF assms]
  obtain i where i: "first_index (has_id task_id) ?rows = Some i" ..
  define archived where "archived = (?rows ! i)(''status'' \<mapsto> JStr ''archived'',
                                        ''updated_at'' \<mapsto> JStr (now_iso e (clock s)))"
  have b: "i < length ?rows" and h: "has_id task_id (?rows ! i)"
    using i by (simp_all add: first_index_Some_iff)
  have soft: "delete_task e task_id True s =
             (Inr (), \<lparr>tasks_file = ?rows[i := archived], clock = clock s + 1\<rparr>)"
    using soft_delete_found [OF i, of e] by (simp add: archived_def)
  have hard: "delete_task e task_id False s =
             (Inr (), s\<lparr>tasks_file := filter (\<lambda>t. \<not> has_id task_id t) ?rows\<rparr>)"
    using assms by (rule hard_delete_found)
  have f1: "get archived ''status'' = JStr ''archived''" by (simp add: archived_def)
  have f2: "get archived ''updated_at'' = JStr (now_iso e (clock s))" by (simp add: archived_def)
  have f3: "get archived ''completed_at'' = get (?rows ! i) ''completed_at''" by (simp add: archived_def)
  have f4: "has_id task_id archived" using h by (simp add: has_id_def archived_def)
  have f5: "length (tasks_file (snd (delete_task e task_id True s))) = length ?rows"
    by (simp add: soft)
  have q1: "\<forall>note_id workspace_id res.
              get_tasks_by_note note_id workspace_id s = Inr res \<and> ?rows ! i \<in> set res \<longrightarrow>
              (\<exists>res'. get_tasks_by_note note_id workspace_id (snd (delete_task e task_id True s)) = Inr res' \<and>
                      archived \<in> set res' \<and> length res' = length res)"
  proof (intro allI impI)
    fix note_id workspace_id res
    let ?P = "\<lambda>t. py_eq (get t ''note_id'') (JStr note_id) \<and> \<not> differs workspace_id (get t ''workspace_id'')"
    assume a: "get_tasks_by_note note_id workspace_id s = Inr res \<and> ?rows ! i \<in> set res"
    have p: "?P archived = ?P (?rows ! i)" by (simp add: archived_def)
    have k: "sort_key_of archived = sort_key_of (?rows ! i)" by (simp add: archived_def sort_key_of_def)
    from a have "py_sort sort_key_of (filter ?P ?rows) = Inr res" and "?rows ! i \<in> set res"
      by (simp_all add: get_tasks_by_note_def)
    from sorted_filter_update [OF b p k this]
    show "\<exists>res'. get_tasks_by_note note_id workspace_id (snd (delete_task e task_id True s)) = Inr res' \<and>
                      archived \<in> set res' \<and> length res' = length res"
      by (simp add: get_tasks_by_note_def soft)
  qed
  have q2: "\<forall>note_id workspace_id res.
              get_tasks_by_note note_id workspace_id (snd (delete_task e task_id False s)) = Inr res \<longrightarrow>
              (\<forall>t\<in>set res. \<not> has_id task_id t)"
  proof (intro allI impI)
    fix note_id workspace_id res
    assume "get_tasks_by_note note_id workspace_id (snd (delete_task e task_id False s)) = Inr res"
    then have "set res \<subseteq> set (filter (\<lambda>t. \<not> has_id task_id t) ?rows)"
      by (auto simp: get_tasks_by_note_def hard dest!: py_sort_set)
    then show "\<forall>t\<in>set res. \<not> has_id task_id t" by auto
  qed
  have q3: "\<forall>start_date end_date workspace_id user_id include_done res.
              get_tasks_by_date_range start_date end_date workspace_id user_id include_done
                (snd (delete_task e task_id False s)) = Inr res \<longrightarrow>
              (\<forall>t\<in>set res. \<not> has_id task_id t)"
  proof (intro allI impI)
    fix start_date end_date workspace_id user_id include_done res
    assume a: "get_tasks_by_date_range start_date end_date workspace_id user_id include_done
                (snd (delete_task e task_id False s)) = Inr res"
    then obtain sel where sel: "date_range_loop start_date end_date workspace_id user_id include_done
                 (filter (\<lambda>t. \<not> has_id task_id t) ?rows) = Inr sel" "py_sort sort_key_of sel = Inr res"
      by (auto simp: get_tasks_by_date_range_def hard split: sum.splits)
    from date_range_loop_subset [OF sel(1)] py_sort_set [OF sel(2)]
    show "\<forall>t\<in>set res. \<not> has_id task_id t" by auto
  qed
  show ?thesis
    using b h soft f1 f2 f3 f4 f5 q1 hard q2 q3 archived_def by blast
qed

lemma sample_keys:
  "sort_key_of task_a = (JStr ''2024-01-15'', JStr ''23:59'')"
  "sort_key_of task_b = (JStr ''2024-01-01'', JStr ''09:30'')"
  "sort_key_of task_c = (JStr ''2024-02-01'', JStr ''23:59'')"
  "sort_key_of task_d = (JStr ''9999-12-31'', JStr ''23:59'')"
  by (simp_all add: sort_key_of_def py_or_def task_a_def task_b_def task_c_def task_d_def)

lemma sample_notes:
  "get task_a ''note_id'' = JStr ''n1''" "get task_b ''note_id'' = JStr ''n1''"
  "get task_c ''note_id'' = JStr ''n2''" "get task_d ''note_id'' = JStr ''n2''"
  by (simp_all add: task_a_def task_b_def task_c_def task_d_def)

lemma sample_ids:
  "get task_a ''id'' = JStr ''a''" "get task_b ''id'' = JStr ''b''"
  "get task_c ''id'' = JStr ''c''" "get task_d ''id'' = JStr ''d''"
  by (simp_all add: task_a_def task_b_def task_c_def task_d_def)

lemma sample_store_by_note:
  "get_tasks_by_note ''n1'' None sample_store = Inr [task_b, task_a]"
  by (simp add: get_tasks_by_note_def sample_store_def py_sort_def differs_def sample_notes sample_keys)

theorem C7_delete_witness:
  "(\<exists>t\<in>set (tasks_file sample_store). has_id ''a'' t) \<and>
   get_tasks_by_note ''n1'' None sample_store = Inr [task_b, task_a] \<and>
   (\<exists>res'. get_tasks_by_note ''n1'' None (snd (delete_task sample_env ''a'' True sample_store)) = Inr res' \<and>
           task_a(''status'' \<mapsto> JStr ''archived'', ''updated_at'' \<mapsto> JStr (now_iso sample_env 0)) \<in> set res' \<and>
           length res' = 2) \<and>
   fst (delete_task sample_env ''a'' False sample_store) = Inr ()"
proof -
  have h: "\<exists>t\<in>set (tasks_file sample_store). has_id ''a'' t"
    by (simp add: sample_store_def has_id_def sample_ids)
  from C7_soft_and_hard_delete [OF h, of sample_env]
  obtain i archived where b: "i < length (tasks_file sample_store)"
    and hi: "has_id ''a'' (tasks_file sample_store ! i)"
    and ar: "archived = (tasks_file sample_store ! i)(''status'' \<mapsto> JStr ''archived'',
                          ''updated_at'' \<mapsto> JStr (now_iso sample_env (clock sample_store)))"
    and q: "\<forall>note_id workspace_id res.
              get_tasks_by_note note_id workspace_id sample_store = Inr res \<and>
              tasks_file sample_store ! i \<in> set res \<longrightarrow>
              (\<exists>res'. get_tasks_by_note note_id workspace_id
                        (snd (delete_task sample_env ''a'' True sample_store)) = Inr res' \<and>
                      archived \<in> set res' \<and> length res' = length res)"
    and hard: "delete_task sample_env ''a'' False sample_store =
             (Inr (), sample_store\<lparr>tasks_file := filter (\<lambda>t. \<not> has_id ''a'' t) (tasks_file sample_store)\<rparr>)"
    by blast
  from b have "i = 0 \<or> i = 1 \<or> i = 2 \<or> i = 3" by (auto simp: sample_store_def)
  with hi have i0: "i = 0"
    by (auto simp: sample_store_def has_id_def sample_ids)
  then have t: "tasks_file sample_store ! i = task_a" by (simp add: sample_store_def)
  have "get_tasks_by_note ''n1'' None sample_store = Inr [task_b, task_a] \<and>
        tasks_file sample_store ! i \<in> set [task_b, task_a]"
    using sample_store_by_note t by simp
  with q obtain res' where r: "get_tasks_by_note ''n1'' None
                        (snd (delete_task sample_env ''a'' True sample_store)) = Inr res'"
      "archived \<in> set res'" "length res' = length [task_b, task_a]"
    by blast
  have "archived = task_a(''status'' \<mapsto> JStr ''archived'', ''updated_at'' \<mapsto> JStr (now_iso sample_env 0))"
    unfolding ar t by (simp add: sample_store_def)
  with r have "\<exists>res'. get_tasks_by_note ''n1'' None (snd (delete_task sample_env ''a'' True sample_store)) = Inr res' \<and>
           task_a(''status'' \<mapsto> JStr ''archived'', ''updated_at'' \<mapsto> JStr (now_iso sample_env 0)) \<in> set res' \<and>
           length res' = 2"
    by auto
  moreover from hard have "fst (delete_task sample_env ''a'' False sample_store) = Inr ()" by simp
  ultimately show ?thesis using h sample_store_by_note by blast
qed

section \<open>The date-range query\<close>













end
